theory Spec2Isabelle
  imports
    Main
    "HOL-Library.Word"
    "HOL-Library.AList"
    "HOL-Library.Char_ord"
    "HOL-Library.List_Lexorder"
begin

text \<open>
  A shallow embedding of parts of the Rapid map editor and the properties that its
  specification states of them: the entity of \<open>modules/osm/entity.js\<close> (\<open>update\<close>,
  \<open>touch\<close>, \<open>mergeTags\<close>), the tile loader of the photo service
  \<open>HudhudStreetsService\<close>, the operation \<open>operationExtract\<close>, and the test of the
  validator of ambiguous crossing tags.  The definitions come first, the properties
  follow; each property that answers a claim of the specification names it.
\<close>

section \<open>JavaScript strings\<close>

text \<open>
  A JavaScript string is a sequence of UTF-16 code units.  Source literals are ASCII and
  are written through \<open>js\<close>.
\<close>

type_synonym jsstring = "16 word list"

definition js :: "string \<Rightarrow> jsstring" where
  "js s = map (\<lambda>c. of_nat (of_char c)) s"

text \<open>\<open>String(n)\<close> for an integral number: decimal digits, with a sign.\<close>

fun digitsOf :: "nat \<Rightarrow> jsstring" where
  "digitsOf n = (if n < 10 then [of_nat (48 + n)] else digitsOf (n div 10) @ [of_nat (48 + n mod 10)])"

definition numToString :: "int \<Rightarrow> jsstring" where
  "numToString n = (if n < 0 then js ''-'' @ digitsOf (nat (- n)) else digitsOf (nat n))"

subsection \<open>\<open>t.split(/;\s*/)\<close> and \<open>Array.prototype.join\<close>\<close>

text \<open>
  The white space class \<open>\s\<close> of a JavaScript regular expression: tab, line feed,
  vertical tab, form feed, carriage return, space, no-break space, the Unicode space
  separators, the line and paragraph separators and the byte order mark.
\<close>

definition isSpace :: "16 word \<Rightarrow> bool" where
  "isSpace c \<longleftrightarrow>
     c = 0x0009 \<or> c = 0x000A \<or> c = 0x000B \<or> c = 0x000C \<or> c = 0x000D \<or> c = 0x0020 \<or>
     c = 0x00A0 \<or> c = 0x1680 \<or> (0x2000 \<le> c \<and> c \<le> 0x200A) \<or> c = 0x2028 \<or> c = 0x2029 \<or>
     c = 0x202F \<or> c = 0x205F \<or> c = 0x3000 \<or> c = 0xFEFF"

definition semicolon :: "16 word" where
  "semicolon = 0x003B"

text \<open>
  \<open>splitFrom cur s\<close> scans \<open>s\<close> with the piece collected so far in \<open>cur\<close> (reversed).
  The separator is one semicolon and every white space unit that follows it; the match
  is never empty, so the result always has at least one piece.
\<close>

function splitFrom :: "jsstring \<Rightarrow> jsstring \<Rightarrow> jsstring list" where
  "splitFrom cur [] = [rev cur]"
| "splitFrom cur (c # cs) =
     (if c = semicolon then rev cur # splitFrom [] (dropWhile isSpace cs)
      else splitFrom (c # cur) cs)"
  by pat_completeness auto
termination
  by (relation "measure (\<lambda>(cur, s). length s)")
     (auto simp: length_dropWhile_le less_Suc_eq_le)

definition split_semi :: "jsstring \<Rightarrow> jsstring list" where
  "split_semi s = splitFrom [] s"

fun join :: "jsstring \<Rightarrow> jsstring list \<Rightarrow> jsstring" where
  "join sep [] = []"
| "join sep [x] = x"
| "join sep (x # y # ys) = x @ sep @ join sep (y # ys)"

subsection \<open>The helpers of \<open>@rapid-sdk/util\<close>\<close>

text \<open>
  Modelled from the spec: \<open>utilArrayUnion\<close> and \<open>utilUnicodeCharsTruncated\<close> are
  imported from the package \<open>@rapid-sdk/util\<close>, which is not part of the sources.  The
  spec calls their results the deduplicated union and the value truncated to a budget
  measured in Unicode code points.  The union keeps the first occurrence of every item,
  in the order of a \<open>Set\<close> filled from the first array and then from the second; the
  truncation keeps the first \<open>limit\<close> items of the string's code point iteration, in
  which a high surrogate followed by a low surrogate is one item and every other code
  unit is an item of its own.
\<close>

fun uniq :: "'a list \<Rightarrow> 'a list \<Rightarrow> 'a list" where
  "uniq seen [] = rev seen"
| "uniq seen (x # xs) = (if x \<in> set seen then uniq seen xs else uniq (x # seen) xs)"

definition utilArrayUnion :: "'a list \<Rightarrow> 'a list \<Rightarrow> 'a list" where
  "utilArrayUnion a b = uniq [] (a @ b)"

definition isHighSurrogate :: "16 word \<Rightarrow> bool" where
  "isHighSurrogate c \<longleftrightarrow> 0xD800 \<le> c \<and> c \<le> 0xDBFF"

definition isLowSurrogate :: "16 word \<Rightarrow> bool" where
  "isLowSurrogate c \<longleftrightarrow> 0xDC00 \<le> c \<and> c \<le> 0xDFFF"

fun codePoints :: "jsstring \<Rightarrow> jsstring list" where
  "codePoints [] = []"
| "codePoints [c] = [[c]]"
| "codePoints (c # d # cs) =
     (if isHighSurrogate c \<and> isLowSurrogate d then [c, d] # codePoints cs
      else [c] # codePoints (d # cs))"

definition utilUnicodeCharsTruncated :: "jsstring \<Rightarrow> nat \<Rightarrow> jsstring" where
  "utilUnicodeCharsTruncated str limit = concat (take limit (codePoints str))"


section \<open>Entities: \<open>modules/osm/entity.js\<close>\<close>

subsection \<open>Values, objects and the global state\<close>

text \<open>
  A tag map holds strings under string keys; it is kept as an association list in the
  object's enumeration order.  A property of an entity holds a string, an integral
  number, a boolean, a tag map, \<open>undefined\<close>, or some other object (\<open>loc\<close>, \<open>nodes\<close>,
  \<open>members\<close>), which the functions below only copy.
\<close>

type_synonym tags = "(jsstring \<times> jsstring) list"

datatype jsval = JUndefined | JStr jsstring | JNum int | JBool bool | JTags tags | JObj nat

fun truthy :: "jsval \<Rightarrow> bool" where
  "truthy JUndefined = False"
| "truthy (JStr s) = (s \<noteq> [])"
| "truthy (JNum n) = (n \<noteq> 0)"
| "truthy (JBool b) = b"
| "truthy (JTags t) = True"
| "truthy (JObj r) = True"

text \<open>
  An object is its prototype and its own properties.  \<open>Plain\<close> is an object literal,
  \<open>Generic\<close> an object made by \<open>new osmEntity()\<close>; the other four are objects of the
  subtypes that \<open>osmEntity.id.type\<close> and \<open>osmEntity.id.next\<close> name.
\<close>

datatype cls = Plain | Generic | OsmNode | OsmWay | OsmRelation | OsmChangeset

record obj =
  proto :: cls
  props :: "(jsstring \<times> jsval) list"

text \<open>
  A \<open>TypeError\<close> is what the source raises; \<open>Unmodelled\<close> marks the few inputs whose
  treatment by the source (arithmetic on \<open>NaN\<close>, properties of arrays) is left out.
\<close>

datatype error = TypeError | Unmodelled

text \<open>
  The state of the module: the entity objects by address (an allocation appends), the
  counter \<open>_nextv\<close> and the table \<open>osmEntity.id.next\<close>.  \<open>_nextv\<close> is an integer here;
  the JavaScript number is exact up to \<open>2 ^ 53\<close>.
\<close>

record state =
  heap :: "obj list"
  nextv :: int
  idnext :: "(jsstring \<times> int) list"

definition initialState :: state where
  "initialState =
     \<lparr>heap = [], nextv = 0,
      idnext = [(js ''changeset'', -1), (js ''node'', -1), (js ''way'', -1), (js ''relation'', -1)]\<rparr>"

text \<open>
  Modelled from the spec: the prototypes of the subtypes are set up by \<open>node.js\<close>,
  \<open>way.js\<close>, \<open>relation.js\<close> and \<open>changeset.js\<close>, which are not part of the sources; each
  prototype carries the \<open>type\<close> of its variant.  \<open>osmEntity.prototype\<close> itself carries
  \<open>tags: {}\<close>.
\<close>

fun protoType :: "cls \<Rightarrow> jsval" where
  "protoType OsmNode = JStr (js ''node'')"
| "protoType OsmWay = JStr (js ''way'')"
| "protoType OsmRelation = JStr (js ''relation'')"
| "protoType OsmChangeset = JStr (js ''changeset'')"
| "protoType c = JUndefined"

text \<open>
  A property read \<open>e.p\<close>: the own property, else the prototype's.  It is used for \<open>id\<close>,
  \<open>type\<close>, \<open>v\<close> and \<open>visible\<close> only.
\<close>

definition getProp :: "obj \<Rightarrow> jsstring \<Rightarrow> jsval" where
  "getProp e p =
     (case map_of (props e) p of
        Some x \<Rightarrow> x
      | None \<Rightarrow> if p = js ''type'' then protoType (proto e) else JUndefined)"

definition hasOwnProperty :: "obj \<Rightarrow> jsstring \<Rightarrow> bool" where
  "hasOwnProperty e p \<longleftrightarrow> map_of (props e) p \<noteq> None"

definition setProp :: "nat \<Rightarrow> jsstring \<Rightarrow> jsval \<Rightarrow> state \<Rightarrow> state" where
  "setProp self p x st =
     st\<lparr>heap := (heap st)[self := (heap st ! self)\<lparr>props := AList.update p x (props (heap st ! self))\<rparr>]\<rparr>"

definition deleteProp :: "nat \<Rightarrow> jsstring \<Rightarrow> state \<Rightarrow> state" where
  "deleteProp self p st =
     st\<lparr>heap := (heap st)[self := (heap st ! self)\<lparr>props := AList.delete p (props (heap st ! self))\<rparr>]\<rparr>"

subsection \<open>\<open>osmEntity.id\<close> and \<open>osmEntity.key\<close>\<close>

definition osmEntity_id_fromOSM :: "jsstring \<Rightarrow> int \<Rightarrow> jsstring" where
  "osmEntity_id_fromOSM type n =
     (case type of [] \<Rightarrow> js ''undefined'' | c # cs \<Rightarrow> [c]) @ numToString n"

text \<open>
  \<open>osmEntity.id(type)\<close> reads and decrements \<open>osmEntity.id.next[type]\<close>.  For a type
  that the table lacks the source computes with \<open>NaN\<close>; that is left out here.
\<close>

definition osmEntity_id :: "state \<Rightarrow> jsval \<Rightarrow> error + (state \<times> jsstring)" where
  "osmEntity_id st type =
     (case type of
        JStr t \<Rightarrow>
          (case map_of (idnext st) t of
             Some n \<Rightarrow> Inr (st\<lparr>idnext := AList.update t (n - 1) (idnext st)\<rparr>, osmEntity_id_fromOSM t n)
           | None \<Rightarrow> Inl Unmodelled)
      | _ \<Rightarrow> Inl Unmodelled)"

definition osmEntity_id_toOSM :: "jsstring \<Rightarrow> jsstring" where
  "osmEntity_id_toOSM ident = drop 1 ident"

definition osmEntity_id_type :: "jsval \<Rightarrow> error + jsval" where
  "osmEntity_id_type ident =
     (case ident of
        JStr s \<Rightarrow>
          Inr (case map_of [(js ''c'', js ''changeset''), (js ''n'', js ''node''),
                            (js ''w'', js ''way''), (js ''r'', js ''relation'')] (take 1 s) of
                 Some t \<Rightarrow> JStr t
               | None \<Rightarrow> JUndefined)
      | JTags t \<Rightarrow> Inl Unmodelled
      | JObj r \<Rightarrow> Inl Unmodelled
      | _ \<Rightarrow> Inr JUndefined)"

definition toString :: "jsval \<Rightarrow> error + jsstring" where
  "toString x =
     (case x of
        JUndefined \<Rightarrow> Inr (js ''undefined'')
      | JStr s \<Rightarrow> Inr s
      | JNum n \<Rightarrow> Inr (numToString n)
      | JBool b \<Rightarrow> Inr (if b then js ''true'' else js ''false'')
      | JTags t \<Rightarrow> Inr (js ''[object Object]'')
      | JObj r \<Rightarrow> Inl Unmodelled)"

text \<open>\<open>entity.id + 'v' + (entity.v || 0)\<close>\<close>

definition osmEntity_key :: "obj \<Rightarrow> error + jsstring" where
  "osmEntity_key entity =
     (case toString (getProp entity (js ''id'')) of
        Inl e \<Rightarrow> Inl e
      | Inr i \<Rightarrow>
          (case toString (if truthy (getProp entity (js ''v'')) then getProp entity (js ''v'') else JNum 0) of
             Inl e \<Rightarrow> Inl e
           | Inr n \<Rightarrow> Inr (i @ js ''v'' @ n)))"

subsection \<open>\<open>initialize\<close>, the constructor, \<open>touch\<close> and \<open>update\<close>\<close>

text \<open>
  One step of the inner loop of \<open>initialize\<close>: an own property of the source whose value
  is \<open>undefined\<close> deletes the property of \<open>this\<close>, any other value is assigned.
\<close>

definition copyProp :: "nat \<Rightarrow> jsstring \<times> jsval \<Rightarrow> state \<Rightarrow> state" where
  "copyProp self pv st =
     (if snd pv = JUndefined then deleteProp self (fst pv) st else setProp self (fst pv) (snd pv) st)"

definition initialize :: "state \<Rightarrow> nat \<Rightarrow> obj list \<Rightarrow> error + state" where
  "initialize st self sources =
     (let st1 = fold (\<lambda>source. fold (copyProp self) (props source)) sources st;
          this = heap st1 ! self
      in case (if \<not> truthy (getProp this (js ''id'')) \<and> truthy (getProp this (js ''type''))
               then (case osmEntity_id st1 (getProp this (js ''type'')) of
                       Inl e \<Rightarrow> Inl e
                     | Inr (st2, newid) \<Rightarrow> Inr (setProp self (js ''id'') (JStr newid) st2))
               else Inr st1) of
           Inl e \<Rightarrow> Inl e
         | Inr st3 \<Rightarrow>
             Inr (if \<not> hasOwnProperty (heap st3 ! self) (js ''visible'')
                  then setProp self (js ''visible'') (JBool True) st3 else st3))"

text \<open>
  Modelled from the spec: the constructors \<open>osmEntity.node\<close>, \<open>osmEntity.way\<close>,
  \<open>osmEntity.relation\<close> and \<open>osmEntity.changeset\<close> are registered by files that are not
  part of the sources.  As the generic branch of \<open>osmEntity\<close> does with
  \<open>(new osmEntity()).initialize(arguments)\<close>, each creates a new object of its variant
  and runs the inherited \<open>initialize\<close> on the arguments (the spec's \<open>create(attrs)\<close>).
\<close>

definition construct :: "cls \<Rightarrow> state \<Rightarrow> obj list \<Rightarrow> error + (state \<times> nat)" where
  "construct c st args =
     (let self = length (heap st);
          st0 = st\<lparr>heap := heap st @ [\<lparr>proto = c, props = []\<rparr>]\<rparr>
      in case initialize st0 self args of
           Inl e \<Rightarrow> Inl e
         | Inr st1 \<Rightarrow> Inr (st1, self))"

text \<open>
  \<open>osmEntity[t]\<close>: the constructor registered under the name \<open>t\<close>.  Any other name gives
  no constructor of an entity, and the call of \<open>osmEntity\<close> fails.
\<close>

definition subtype :: "jsval \<Rightarrow> cls option" where
  "subtype t =
     (case t of
        JStr s \<Rightarrow> map_of [(js ''node'', OsmNode), (js ''way'', OsmWay),
                           (js ''relation'', OsmRelation), (js ''changeset'', OsmChangeset)] s
      | _ \<Rightarrow> None)"

definition osmEntity :: "state \<Rightarrow> obj list \<Rightarrow> error + (state \<times> nat)" where
  "osmEntity st args =
     (case args of
        [] \<Rightarrow> construct Generic st args
      | attrs # others \<Rightarrow>
          if truthy (getProp attrs (js ''type'')) then
            (case subtype (getProp attrs (js ''type'')) of
               None \<Rightarrow> Inl TypeError
             | Some c \<Rightarrow> construct c st args)
          else if truthy (getProp attrs (js ''id'')) then
            (case osmEntity_id_type (getProp attrs (js ''id'')) of
               Inl e \<Rightarrow> Inl e
             | Inr t \<Rightarrow>
                 (case subtype t of
                    None \<Rightarrow> Inl TypeError
                  | Some c \<Rightarrow> construct c st args))
          else construct Generic st args)"

definition touch :: "state \<Rightarrow> nat \<Rightarrow> state" where
  "touch st self = (setProp self (js ''v'') (JNum (nextv st)) st)\<lparr>nextv := nextv st + 1\<rparr>"

definition update :: "state \<Rightarrow> nat \<Rightarrow> (jsstring \<times> jsval) list \<Rightarrow> error + (state \<times> nat)" where
  "update st this attrs =
     (case osmEntity st [heap st ! this, \<lparr>proto = Plain, props = attrs\<rparr>] of
        Inl e \<Rightarrow> Inl e
      | Inr (st1, r) \<Rightarrow> Inr (touch st1 r, r))"

subsection \<open>\<open>mergeTags\<close>\<close>

text \<open>
  \<open>merged\<close> is a plain object, so the read \<open>merged[k]\<close> finds an own property or, for the
  names that \<open>Object.prototype\<close> defines, the inherited value, which is neither falsy nor
  a string: a method, or under \<open>__proto__\<close> the object \<open>Object.prototype\<close> itself, which the
  inherited getter returns.
\<close>

definition objectPrototypeNames :: "jsstring list" where
  "objectPrototypeNames =
     [js ''constructor'', js ''hasOwnProperty'', js ''isPrototypeOf'',
      js ''propertyIsEnumerable'', js ''toLocaleString'', js ''toString'', js ''valueOf'',
      js ''__defineGetter__'', js ''__defineSetter__'', js ''__lookupGetter__'',
      js ''__lookupSetter__'', js ''__proto__'']"

datatype tagval = Absent | Own jsstring | Inherited

definition getTag :: "tags \<Rightarrow> jsstring \<Rightarrow> tagval" where
  "getTag merged k =
     (case map_of merged k of
        Some x \<Rightarrow> Own x
      | None \<Rightarrow> if k \<in> set objectPrototypeNames then Inherited else Absent)"

text \<open>
  \<open>Object.assign({}, src)\<close> assigns every own entry of \<open>src\<close> to the new object.  Under
  the key \<open>__proto__\<close> (an own key of a tag map that \<open>JSON.parse\<close> made) the assignment
  runs the setter inherited from \<open>Object.prototype\<close>, which ignores a string: the copy gets
  no own property of this name.  The assignments \<open>merged[k] = \<dots>\<close> of the loop are reached
  only where \<open>merged\<close> has the key \<open>k\<close> itself or \<open>k\<close> is not inherited, so they store.
\<close>

definition Object_assign :: "tags \<Rightarrow> tags" where
  "Object_assign src =
     fold (\<lambda>kv m. if fst kv = js ''__proto__'' then m else AList.update (fst kv) (snd kv) m) src []"

text \<open>
  \<open>this.tags\<close> as the source of the copy: the own property, else the \<open>{}\<close> of the
  prototype.  \<open>Object.assign\<close> copies nothing from \<open>undefined\<close>, a number or a boolean; a
  string or another object in the place of the tag map is left out.
\<close>

definition thisTags :: "obj \<Rightarrow> error + tags" where
  "thisTags e =
     (case map_of (props e) (js ''tags'') of
        None \<Rightarrow> Inr []
      | Some (JTags t) \<Rightarrow> Inr t
      | Some (JStr s) \<Rightarrow> Inl Unmodelled
      | Some (JObj r) \<Rightarrow> Inl Unmodelled
      | Some x \<Rightarrow> Inr [])"

text \<open>
  The body of the loop \<open>for (var k in tags)\<close> on the variables \<open>merged\<close> and
  \<open>changed\<close>; \<open>continue\<close> leaves both as they are, and \<open>t1.split\<close> of an inherited
  value is a \<open>TypeError\<close>.
\<close>

definition mergeStep :: "jsstring \<times> jsstring \<Rightarrow> tags \<times> bool \<Rightarrow> error + (tags \<times> bool)" where
  "mergeStep kv s =
     (let k = fst kv; t2 = snd kv; merged = fst s; changed = snd s; t1 = getTag merged k in
      if t1 = Absent \<or> t1 = Own [] then
        Inr (AList.update k t2 merged, True)
      else if k = js ''building'' then
        (if t2 = js ''yes'' then Inr (merged, changed)
         else if t1 = Own (js ''yes'') then Inr (AList.update k t2 merged, True)
         else Inr (merged, changed))
      else if t1 \<noteq> Own t2 then
        (case t1 of
           Own s1 \<Rightarrow>
             Inr (AList.update k
                    (utilUnicodeCharsTruncated
                       (join (js '';'') (utilArrayUnion (split_semi s1) (split_semi t2))) 255)
                    merged,
                  True)
         | _ \<Rightarrow> Inl TypeError)
      else Inr (merged, changed))"

fun mergeLoop :: "tags \<Rightarrow> tags \<times> bool \<Rightarrow> error + (tags \<times> bool)" where
  "mergeLoop [] s = Inr s"
| "mergeLoop (kv # rest) s =
     (case mergeStep kv s of
        Inl e \<Rightarrow> Inl e
      | Inr s' \<Rightarrow> mergeLoop rest s')"

definition mergeTags :: "state \<Rightarrow> nat \<Rightarrow> tags \<Rightarrow> error + (state \<times> nat)" where
  "mergeTags st this tags =
     (case thisTags (heap st ! this) of
        Inl e \<Rightarrow> Inl e
      | Inr own \<Rightarrow>
          (case mergeLoop tags (Object_assign own, False) of
             Inl e \<Rightarrow> Inl e
           | Inr (merged, changed) \<Rightarrow>
               if changed then update st this [(js ''tags'', JTags merged)] else Inr (st, this)))"


subsection \<open>\<open>hasInterestingTags\<close>\<close>

text \<open>
  \<open>Object.keys(this.tags).some(osmIsInterestingTag)\<close>.  The predicate on keys comes
  from \<open>tags.js\<close>, which is not part of the sources, and is a parameter.
  \<open>Object.keys\<close> of \<open>undefined\<close> is a \<open>TypeError\<close>.
\<close>

definition hasInterestingTags :: "(jsstring \<Rightarrow> bool) \<Rightarrow> obj \<Rightarrow> error + bool" where
  "hasInterestingTags osmIsInterestingTag e =
     (case map_of (props e) (js ''tags'') of
        None \<Rightarrow> (if proto e = Plain then Inl TypeError else Inr False)
      | Some (JTags t) \<Rightarrow> Inr (list_ex osmIsInterestingTag (map fst t))
      | Some JUndefined \<Rightarrow> Inl TypeError
      | Some (JStr s) \<Rightarrow> Inl Unmodelled
      | Some (JObj r) \<Rightarrow> Inl Unmodelled
      | Some x \<Rightarrow> Inr False)"

subsection \<open>Notions used to state the properties of the entity\<close>

text \<open>
  The property map that \<open>initialize\<close> builds from one source: a later entry wins, and
  \<open>undefined\<close> removes the property.
\<close>

definition overlay :: "(jsstring \<rightharpoonup> jsval) \<Rightarrow> (jsstring \<times> jsval) list \<Rightarrow> (jsstring \<rightharpoonup> jsval)" where
  "overlay m ps = fold (\<lambda>pv m. m(fst pv := (if snd pv = JUndefined then None else Some (snd pv)))) ps m"

definition sourcesMap :: "obj list \<Rightarrow> (jsstring \<rightharpoonup> jsval) \<Rightarrow> (jsstring \<rightharpoonup> jsval)" where
  "sourcesMap sources m = fold (\<lambda>source m. overlay m (props source)) sources m"

text \<open>The two defaults at the end of \<open>initialize\<close>, as relations between states.\<close>

definition allocId :: "state \<Rightarrow> nat \<Rightarrow> state \<Rightarrow> bool" where
  "allocId st1 self st3 \<longleftrightarrow>
     (st3 = st1 \<or>
      (\<exists>st2 newid. \<not> truthy (getProp (heap st1 ! self) (js ''id'')) \<and> heap st2 = heap st1 \<and>
         nextv st2 = nextv st1 \<and> st3 = setProp self (js ''id'') (JStr newid) st2))"

definition defaultVisible :: "state \<Rightarrow> nat \<Rightarrow> state \<Rightarrow> bool" where
  "defaultVisible st3 self st' \<longleftrightarrow>
     (st' = st3 \<or>
      (map_of (props (heap st3 ! self)) (js ''visible'') = None \<and>
       st' = setProp self (js ''visible'') (JBool True) st3))"

text \<open>Every stamp in the heap was drawn from \<open>_nextv\<close>, so it is below the counter.\<close>

definition stampsBelow :: "state \<Rightarrow> bool" where
  "stampsBelow st \<longleftrightarrow>
     list_all (\<lambda>e. case map_of (props e) (js ''v'') of Some (JNum n) \<Rightarrow> n < nextv st | _ \<Rightarrow> True) (heap st)"

text \<open>
  What \<open>mergeTags\<close> leaves under one key: \<open>mergedValue\<close> is the union of two different
  values, and \<open>resolveTag\<close> is the value that results from the receiver's value \<open>a\<close> and
  the argument's value \<open>b\<close> (\<open>None\<close>: the key is missing on that side).
\<close>

definition mergedValue :: "jsstring \<Rightarrow> jsstring \<Rightarrow> jsstring" where
  "mergedValue t1 t2 =
     utilUnicodeCharsTruncated (join (js '';'') (utilArrayUnion (split_semi t1) (split_semi t2))) 255"

definition resolveTag :: "jsstring \<Rightarrow> jsstring option \<Rightarrow> jsstring option \<Rightarrow> jsstring option" where
  "resolveTag k a b =
     (case b of
        None \<Rightarrow> a
      | Some t2 \<Rightarrow>
          (case a of
             None \<Rightarrow> Some t2
           | Some t1 \<Rightarrow>
               if t1 = [] then Some t2
               else if k = js ''building'' then
                 (if t2 \<noteq> js ''yes'' \<and> t1 = js ''yes'' then Some t2 else Some t1)
               else if t1 = t2 then Some t1
               else Some (mergedValue t1 t2)))"

text \<open>
  The policy in the words of the spec, for comparison: identical values are kept, a
  missing side takes the other, a \<open>building\<close> value \<open>yes\<close> gives way to the other side's
  value, and any other two different values become the deduplicated union of their
  lists, split at the semicolons, joined by semicolons and truncated to 255 code points.
\<close>

fun splitAt :: "16 word \<Rightarrow> jsstring \<Rightarrow> jsstring \<Rightarrow> jsstring list" where
  "splitAt sep cur [] = [rev cur]"
| "splitAt sep cur (c # cs) =
     (if c = sep then rev cur # splitAt sep [] cs else splitAt sep (c # cur) cs)"

definition specResolve :: "jsstring \<Rightarrow> jsstring option \<Rightarrow> jsstring option \<Rightarrow> jsstring option" where
  "specResolve k a b =
     (case a of
        None \<Rightarrow> b
      | Some t1 \<Rightarrow>
          (case b of
             None \<Rightarrow> Some t1
           | Some t2 \<Rightarrow>
               if t1 = t2 then Some t1
               else if k = js ''building'' \<and> t1 = js ''yes'' then Some t2
               else if k = js ''building'' \<and> t2 = js ''yes'' then Some t1
               else Some (utilUnicodeCharsTruncated
                            (join (js '';'')
                               (utilArrayUnion (splitAt semicolon [] t1) (splitAt semicolon [] t2)))
                            255)))"

text \<open>The value under the key \<open>k\<close> in the tags of the entity that \<open>mergeTags\<close> returns.\<close>

definition tagAfterMerge :: "state \<Rightarrow> nat \<Rightarrow> tags \<Rightarrow> jsstring \<Rightarrow> error + jsstring option" where
  "tagAfterMerge st this tags k =
     (case mergeTags st this tags of
        Inl e \<Rightarrow> Inl e
      | Inr (st', r) \<Rightarrow>
          (case thisTags (heap st' ! r) of
             Inl e \<Rightarrow> Inl e
           | Inr t \<Rightarrow> Inr (map_of t k)))"

subsection \<open>Example entities\<close>

definition exampleNode :: obj where
  "exampleNode =
     \<lparr>proto = OsmNode,
      props = [(js ''id'', JStr (js ''n1'')), (js ''visible'', JBool True),
               (js ''tags'', JTags [(js ''name'', js ''Main Street''), (js ''building'', js ''yes'')]),
               (js ''v'', JNum 4)]\<rparr>"

definition exampleState :: state where
  "exampleState = \<lparr>heap = [exampleNode], nextv = 7, idnext = idnext initialState\<rparr>"

definition emptyNameNode :: obj where
  "emptyNameNode =
     \<lparr>proto = OsmNode,
      props = [(js ''id'', JStr (js ''n2'')), (js ''visible'', JBool True),
               (js ''tags'', JTags [(js ''name'', [])])]\<rparr>"

definition emptyNameState :: state where
  "emptyNameState = \<lparr>heap = [emptyNameNode], nextv = 7, idnext = idnext initialState\<rparr>"

text \<open>
  A node whose tag map has the own key \<open>__proto__\<close>, as
  \<open>osmEntity({id: 'n3', tags: JSON.parse('{"__proto__": "x"}')})\<close> makes it.
\<close>

definition protoTagNode :: obj where
  "protoTagNode =
     \<lparr>proto = OsmNode,
      props = [(js ''id'', JStr (js ''n3'')), (js ''visible'', JBool True),
               (js ''tags'', JTags [(js ''__proto__'', js ''x'')])]\<rparr>"

definition protoTagState :: state where
  "protoTagState = \<lparr>heap = [protoTagNode], nextv = 7, idnext = idnext initialState\<rparr>"

text \<open>
  A first session: \<open>a = osmEntity({id: 'n1'})\<close>, then \<open>b = a.update({})\<close>; the result
  holds \<open>osmEntity.key(a)\<close>, \<open>osmEntity.key(b)\<close>, \<open>a.v\<close> and \<open>b.v\<close>.
\<close>

definition firstUpdate :: "((error + jsstring) \<times> (error + jsstring) \<times> jsval \<times> jsval) option" where
  "firstUpdate =
     (case osmEntity initialState [\<lparr>proto = Plain, props = [(js ''id'', JStr (js ''n1''))]\<rparr>] of
        Inl e \<Rightarrow> None
      | Inr (st1, a) \<Rightarrow>
          (case update st1 a [] of
             Inl e \<Rightarrow> None
           | Inr (st2, b) \<Rightarrow>
               Some (osmEntity_key (heap st2 ! a), osmEntity_key (heap st2 ! b),
                     getProp (heap st2 ! a) (js ''v''), getProp (heap st2 ! b) (js ''v''))))"

section \<open>The photo service: \<open>HudhudStreetsService\<close>\<close>

text \<open>
  The cache of the service.  The \<open>Map\<close>s and the \<open>Set\<close> are lists in insertion order;
  the spatial index \<open>rtree\<close> is the list of the boxes loaded into it.  Coordinates are
  only copied, so their type is a parameter.
\<close>

record 'c photo =
  photoId :: jsstring
  lng :: 'c
  lat :: 'c
  imagePath :: jsstring
  captured_at :: nat

record 'c box =
  minX :: 'c
  minY :: 'c
  maxX :: 'c
  maxY :: 'c
  boxData :: "'c photo"

record controller =
  aborted :: bool

record 'c cache =
  rtree :: "'c box list"
  inflight :: "(jsstring \<times> controller) list"
  loaded :: "jsstring list"
  images :: "(jsstring \<times> 'c photo) list"

text \<open>A thrown or rejected value: its \<open>name\<close> and whether it is an \<open>Error\<close>.\<close>

record rejection =
  errName :: jsstring
  isError :: bool

text \<open>
  The service: its cache, \<open>_lastv\<close>, the events emitted, the number of calls of
  \<open>context.deferredRedraw\<close> and what \<open>console.error\<close> received.
\<close>

record 'c service =
  cache :: "'c cache"
  lastv :: "nat option"
  emitted :: "jsstring list"
  redraws :: nat
  consoleErrors :: "rejection list"

record 'c tile =
  tileId :: jsstring
  wgs84Extent :: "'c \<times> 'c \<times> 'c \<times> 'c"

definition setAdd :: "'a \<Rightarrow> 'a list \<Rightarrow> 'a list" where
  "setAdd x xs = (if x \<in> set xs then xs else xs @ [x])"

text \<open>
  The synchronous part of \<open>_loadTileAsync\<close>: the guard, the request (sent, not
  modelled) and the entry in \<open>inflight\<close>.
\<close>

definition loadTileAsync :: "'c tile \<Rightarrow> 'c service \<Rightarrow> 'c service" where
  "loadTileAsync tile st =
     (if tileId tile \<in> set (loaded (cache st)) \<or> map_of (inflight (cache st)) (tileId tile) \<noteq> None
      then st
      else st\<lparr>cache := (cache st)
                \<lparr>inflight := AList.update (tileId tile) \<lparr>aborted = False\<rparr> (inflight (cache st))\<rparr>\<rparr>)"

text \<open>
  The callback of \<open>then\<close> on the data of the response; \<open>items\<close> is
  \<open>data.currentPageItems\<close>, \<open>None\<close> when it cannot be iterated, which throws after the
  tile has been marked as loaded.  \<open>now\<close> stands for \<open>new Date()\<close>.
\<close>

definition loadTileAsync_then ::
  "nat \<Rightarrow> 'c tile \<Rightarrow> 'c photo list option \<Rightarrow> 'c service \<Rightarrow> 'c service \<times> rejection option" where
  "loadTileAsync_then now tile items st =
     (let st1 = st\<lparr>cache := (cache st)\<lparr>loaded := setAdd (tileId tile) (loaded (cache st))\<rparr>\<rparr> in
      case items of
        None \<Rightarrow> (st1, Some \<lparr>errName = js ''TypeError'', isError = True\<rparr>)
      | Some currentPageItems \<Rightarrow>
          (let stamped = map (\<lambda>image. image\<lparr>imagePath := js ''https://static.maptoolkit.net/examplepano.jpg'',
                                              captured_at := now\<rparr>) currentPageItems;
               imageBoxes = map (\<lambda>image. \<lparr>minX = lng image, minY = lat image, maxX = lng image,
                                            maxY = lat image, boxData = image\<rparr>) stamped;
               st2 = st1\<lparr>cache := (cache st1)
                         \<lparr>images := fold (\<lambda>image m. AList.update (photoId image) image m) stamped
                                       (images (cache st1)),
                          rtree := rtree (cache st1) @ imageBoxes\<rparr>\<rparr>
           in (st2\<lparr>redraws := redraws st2 + 1, emitted := emitted st2 @ [js ''loadedData'']\<rparr>, None)))"

definition loadTileAsync_catch :: "rejection \<Rightarrow> 'c service \<Rightarrow> 'c service" where
  "loadTileAsync_catch err st =
     (if errName err = js ''AbortError'' then st
      else if isError err then st\<lparr>consoleErrors := consoleErrors st @ [err]\<rparr>
      else st)"

definition loadTileAsync_finally :: "'c tile \<Rightarrow> 'c service \<Rightarrow> 'c service" where
  "loadTileAsync_finally tile st =
     st\<lparr>cache := (cache st)\<lparr>inflight := AList.delete (tileId tile) (inflight (cache st))\<rparr>\<rparr>"

text \<open>
  The promise \<open>fetch(url, options).then(utilFetchResponse)\<close> settles with the data or
  with a rejection; the chain \<open>then\<close>, \<open>catch\<close>, \<open>finally\<close> runs on the state of the
  service at that moment.
\<close>

datatype 'c settlement = Fulfilled "'c photo list option" | Rejected rejection

definition loadTileAsync_settled ::
  "nat \<Rightarrow> 'c tile \<Rightarrow> 'c settlement \<Rightarrow> 'c service \<Rightarrow> 'c service" where
  "loadTileAsync_settled now tile outcome st =
     loadTileAsync_finally tile
       (case outcome of
          Rejected err \<Rightarrow> loadTileAsync_catch err st
        | Fulfilled items \<Rightarrow>
            (case loadTileAsync_then now tile items st of
               (st1, None) \<Rightarrow> st1
             | (st1, Some err) \<Rightarrow> loadTileAsync_catch err st1))"

text \<open>
  \<open>loadTiles\<close>, with \<open>viewport.v\<close> and the tiles that cover the view as parameters:
  requests that are no longer needed are aborted, new ones are issued.
\<close>

definition abortUnneeded :: "jsstring list \<Rightarrow> (jsstring \<times> controller) list \<Rightarrow> (jsstring \<times> controller) list" where
  "abortUnneeded needed entries =
     map (\<lambda>entry. if fst entry \<in> set needed then entry else (fst entry, (snd entry)\<lparr>aborted := True\<rparr>)) entries"

definition loadTiles :: "nat \<Rightarrow> 'c tile list \<Rightarrow> 'c service \<Rightarrow> 'c service" where
  "loadTiles v tiles st =
     (if lastv st = Some v then st
      else
        (let st1 = st\<lparr>lastv := Some v\<rparr>;
             st2 = st1\<lparr>cache := (cache st1)
                       \<lparr>inflight := abortUnneeded (map tileId tiles) (inflight (cache st1))\<rparr>\<rparr>
         in fold (\<lambda>tile s.
                    if tileId tile \<in> set (loaded (cache s)) \<or>
                       map_of (inflight (cache s)) (tileId tile) \<noteq> None
                    then s else loadTileAsync tile s)
              tiles st2))"

definition exampleService :: "int service" where
  "exampleService =
     \<lparr>cache = \<lparr>rtree = [], inflight = [(js ''14,8800,5370'', \<lparr>aborted = True\<rparr>)],
               loaded = [js ''14,8800,5371''], images = []\<rparr>,
      lastv = Some 3, emitted = [], redraws = 0, consoleErrors = []\<rparr>"

definition exampleTile :: "int tile" where
  "exampleTile = \<lparr>tileId = js ''14,8800,5370'', wgs84Extent = (0, 0, 1, 1)\<rparr>"

section \<open>The extract operation: \<open>operationExtract\<close>\<close>

text \<open>
  What the operation asks of its surroundings, none of which is part of the sources: the
  graph (\<open>hasEntity\<close>, \<open>parentWays(entity).length\<close>, \<open>geometry\<close>, which may throw),
  the geometries of the preset that \<open>presetManager.match\<close> finds, the extents
  (\<open>entity.extent\<close>, \<open>extend\<close>, whether \<open>area()\<close> is truthy, whether
  \<open>percentContainedIn(context.map().extent()) < 0.8\<close>), \<open>context.hasHiddenConnections\<close>
  and \<open>osmIsInterestingTag\<close>.  An entity is an object of the entity module.
\<close>

record 'x env =
  graph_hasEntity :: "jsstring \<Rightarrow> obj option"
  graph_parentWays :: "obj \<Rightarrow> nat"
  graph_geometry :: "jsstring \<Rightarrow> error + jsstring"
  preset_geometry :: "obj \<Rightarrow> jsstring list"
  entity_extent :: "obj \<Rightarrow> 'x"
  extent_extend :: "'x \<Rightarrow> 'x \<Rightarrow> 'x"
  extent_area :: "'x \<Rightarrow> bool"
  extent_mostlyOutside :: "'x \<Rightarrow> bool"
  hasHiddenConnections :: "jsstring \<Rightarrow> bool"
  osmIsInterestingTag :: "jsstring \<Rightarrow> bool"

text \<open>
  The operation: \<open>_amount\<close>, \<open>_geometryID\<close>, \<open>_actions\<close> (an \<open>actionExtract(entityID)\<close>
  is kept as its \<open>entityID\<close>), \<open>_extent\<close> and the selection.
\<close>

record 'x operation =
  amount :: jsstring
  geometryID :: jsstring
  actions :: "jsstring list"
  opExtent :: "'x option"
  selectedIDs :: "jsstring list"

text \<open>
  \<open>selectedIDs.map(... hasEntity(entityID) && geometry(entityID)).filter(Boolean)\<close>
\<close>

fun geometries :: "'x env \<Rightarrow> jsstring list \<Rightarrow> error + jsstring list" where
  "geometries env [] = Inr []"
| "geometries env (entityID # rest) =
     (case graph_hasEntity env entityID of
        None \<Rightarrow> geometries env rest
      | Some entity \<Rightarrow>
          (case graph_geometry env entityID of
             Inl e \<Rightarrow> Inl e
           | Inr g \<Rightarrow>
               (case geometries env rest of
                  Inl e \<Rightarrow> Inl e
                | Inr gs \<Rightarrow> Inr (if g = [] then gs else g # gs))))"

text \<open>
  The callback of \<open>selectedIDs.map\<close> that builds \<open>_actions\<close>, with \<open>_extent\<close> before and
  after: \<open>None\<close> is the \<open>undefined\<close> that \<open>filter(Boolean)\<close> drops.
\<close>

definition extractAction ::
  "'x env \<Rightarrow> jsstring \<Rightarrow> 'x option \<Rightarrow> error + (jsstring option \<times> 'x option)" where
  "extractAction env entityID ext =
     (case graph_hasEntity env entityID of
        None \<Rightarrow> Inr (None, ext)
      | Some entity \<Rightarrow>
          (case hasInterestingTags (osmIsInterestingTag env) entity of
             Inl e \<Rightarrow> Inl e
           | Inr interesting \<Rightarrow>
               if \<not> interesting then Inr (None, ext)
               else if getProp entity (js ''type'') = JStr (js ''node'') \<and> graph_parentWays env entity = 0
               then Inr (None, ext)
               else
                 (case graph_geometry env entityID of
                    Inl e \<Rightarrow> Inl e
                  | Inr geometry \<Rightarrow>
                      if (geometry = js ''area'' \<or> geometry = js ''line'') \<and>
                         js ''point'' \<notin> set (preset_geometry env entity)
                      then Inr (None, ext)
                      else Inr (Some entityID,
                                Some (case ext of
                                        None \<Rightarrow> entity_extent env entity
                                      | Some x \<Rightarrow> extent_extend env x (entity_extent env entity))))))"

fun buildActions :: "'x env \<Rightarrow> jsstring list \<Rightarrow> 'x option \<Rightarrow> error + (jsstring list \<times> 'x option)" where
  "buildActions env [] ext = Inr ([], ext)"
| "buildActions env (entityID # rest) ext =
     (case extractAction env entityID ext of
        Inl e \<Rightarrow> Inl e
      | Inr (a, ext1) \<Rightarrow>
          (case buildActions env rest ext1 of
             Inl e \<Rightarrow> Inl e
           | Inr (as, ext2) \<Rightarrow> Inr ((case a of None \<Rightarrow> as | Some x \<Rightarrow> x # as), ext2)))"

definition operationExtract :: "'x env \<Rightarrow> jsstring list \<Rightarrow> error + 'x operation" where
  "operationExtract env ids =
     (case geometries env ids of
        Inl e \<Rightarrow> Inl e
      | Inr gs \<Rightarrow>
          (case buildActions env ids None of
             Inl e \<Rightarrow> Inl e
           | Inr (as, ext) \<Rightarrow>
               Inr \<lparr>amount = (if length ids = 1 then js ''single'' else js ''multiple''),
                    geometryID = (case uniq [] gs of [g] \<Rightarrow> g | _ \<Rightarrow> js ''feature''),
                    actions = as, opExtent = ext, selectedIDs = ids\<rparr>))"

text \<open>\<open>_actions.length && selectedIDs.length === _actions.length\<close>\<close>

definition available :: "'x operation \<Rightarrow> jsval" where
  "available op =
     (if length (actions op) = 0 then JNum 0
      else JBool (length (selectedIDs op) = length (actions op)))"

fun someHiddenVertex :: "'x env \<Rightarrow> jsstring list \<Rightarrow> error + bool" where
  "someHiddenVertex env [] = Inr False"
| "someHiddenVertex env (entityID # rest) =
     (case graph_geometry env entityID of
        Inl e \<Rightarrow> Inl e
      | Inr g \<Rightarrow>
          if g = js ''vertex'' \<and> hasHiddenConnections env entityID then Inr True
          else someHiddenVertex env rest)"

definition disabled :: "'x env \<Rightarrow> 'x operation \<Rightarrow> error + jsval" where
  "disabled env op =
     (case someHiddenVertex env (selectedIDs op) of
        Inl e \<Rightarrow> Inl e
      | Inr hidden \<Rightarrow>
          if hidden then Inr (JStr (js ''connected_to_hidden''))
          else
            (case opExtent op of
               None \<Rightarrow> Inr (JBool False)
             | Some x \<Rightarrow>
                 if extent_area env x \<and> extent_mostlyOutside env x then Inr (JStr (js ''too_large''))
                 else Inr (JBool False)))"

text \<open>An example: the graph holds the way \<open>w1\<close>, whose only tag is \<open>source\<close>.\<close>

definition exampleWay :: obj where
  "exampleWay =
     \<lparr>proto = OsmWay,
      props = [(js ''id'', JStr (js ''w1'')), (js ''visible'', JBool True),
               (js ''tags'', JTags [(js ''source'', js ''survey'')])]\<rparr>"

definition exampleEnv :: "nat env" where
  "exampleEnv =
     \<lparr>graph_hasEntity = (\<lambda>i. if i = js ''w1'' then Some exampleWay else None),
      graph_parentWays = (\<lambda>e. 0),
      graph_geometry = (\<lambda>i. if i = js ''w1'' then Inr (js ''line'') else Inl TypeError),
      preset_geometry = (\<lambda>e. [js ''line'']),
      entity_extent = (\<lambda>e. 0),
      extent_extend = (\<lambda>a b. a + b),
      extent_area = (\<lambda>x. x \<noteq> 0),
      extent_mostlyOutside = (\<lambda>x. False),
      hasHiddenConnections = (\<lambda>i. False),
      osmIsInterestingTag = (\<lambda>k. k \<noteq> js ''source'')\<rparr>"

section \<open>The validation of ambiguous crossing tags\<close>

subsection \<open>Entities, graph and issues of the spec\<close>

text \<open>
  Modelled from the spec: \<open>osmNode\<close>, \<open>osmWay\<close>, \<open>Graph\<close> and the validator
  \<open>validationAmbiguousCrossingTags\<close> are not part of the sources; only the test of the
  validator is.  The entities are the three variants of the spec's data model, the graph
  is its two layers (a lookup resolves local, then base; \<open>None\<close> is a tombstone), and an
  issue has the five fields the spec lists.
\<close>

datatype 'c entity =
    Point jsstring "'c \<times> 'c" tags
  | Line jsstring "jsstring list" tags
  | Relation jsstring "(jsstring \<times> jsstring) list" tags

fun entityId :: "'c entity \<Rightarrow> jsstring" where
  "entityId (Point i l t) = i"
| "entityId (Line i ns t) = i"
| "entityId (Relation i ms t) = i"

fun entityTags :: "'c entity \<Rightarrow> tags" where
  "entityTags (Point i l t) = t"
| "entityTags (Line i ns t) = t"
| "entityTags (Relation i ms t) = t"

record 'c graph =
  baseEntities :: "'c entity list"
  localEntities :: "(jsstring \<times> 'c entity option) list"

definition Graph :: "'c entity list \<Rightarrow> 'c graph" where
  "Graph es = \<lparr>baseEntities = es, localEntities = []\<rparr>"

definition graphEntities :: "'c graph \<Rightarrow> 'c entity list" where
  "graphEntities g =
     filter (\<lambda>e. map_of (localEntities g) (entityId e) = None) (baseEntities g) @
     concat (map (\<lambda>le. case snd le of None \<Rightarrow> [] | Some e \<Rightarrow> [e]) (localEntities g))"

fun hasNode :: "jsstring \<Rightarrow> 'c entity \<Rightarrow> bool" where
  "hasNode n (Line i ns t) = (n \<in> set ns)"
| "hasNode n e = False"

definition parentWays :: "'c graph \<Rightarrow> jsstring \<Rightarrow> 'c entity list" where
  "parentWays g n = filter (hasNode n) (graphEntities g)"

datatype severity = Error | Warning

record 'c issue =
  issueType :: jsstring
  severity :: severity
  entityIds :: "jsstring list"
  loc :: "'c \<times> 'c"
  key :: jsstring

text \<open>
  Modelled from the spec: the key is derived by sorting \<open>entityIds\<close>, so that it does
  not depend on their order.
\<close>

definition issueKey :: "jsstring \<Rightarrow> jsstring list \<Rightarrow> jsstring" where
  "issueKey ty ids = ty @ concat (map (\<lambda>i. js '':'' @ i) (sort ids))"

subsection \<open>The crossing-tags algorithm of the spec\<close>

text \<open>
  Modelled from the spec: the marking state of a tag map is one of untagged, unmarked,
  marked (with its sub-style) and informal.  The tests name the tags that decide it:
  \<open>crossing\<close> with the values \<open>informal\<close>, \<open>unmarked\<close> and \<open>marked\<close>, and
  \<open>crossing:markings\<close>, whose value \<open>no\<close> means unmarked and whose other values are the
  sub-style of a marked crossing.
\<close>

datatype marking = Untagged | Unmarked | Marked "jsstring option" | Informal

definition classify :: "tags \<Rightarrow> marking" where
  "classify t =
     (let crossing = map_of t (js ''crossing''); markings = map_of t (js ''crossing:markings'') in
      if crossing = Some (js ''informal'') then Informal
      else if crossing = Some (js ''unmarked'') \<or> markings = Some (js ''no'') then Unmarked
      else if crossing = Some (js ''marked'') \<or> markings \<noteq> None then Marked markings
      else Untagged)"

text \<open>
  Modelled from the spec: no issue when both sides are silent or fully agree on state
  and sub-style, and none when both lines are untagged; otherwise a line that carries a
  marking state and the node disagree, whether on the state, on the sub-style, or by the
  node (or the line) carrying no state at all.
\<close>

definition ambiguous :: "marking \<Rightarrow> marking \<Rightarrow> marking \<Rightarrow> bool" where
  "ambiguous lineA lineB node \<longleftrightarrow>
     (lineA \<noteq> Untagged \<and> lineA \<noteq> node) \<or> (lineB \<noteq> Untagged \<and> lineB \<noteq> node)"

text \<open>
  Modelled from the spec: the validator is a function of an entity and the graph.  The
  algorithm is stated for a given node that is shared between exactly two lines; it
  raises one warning, located at the node and naming both lines.  The test in the
  sources concatenates the validator's output over all entities and expects one issue
  for one crossing, so the issue is raised for the shared node alone and a line by
  itself raises none.
\<close>

definition validationAmbiguousCrossingTags :: "'c entity \<Rightarrow> 'c graph \<Rightarrow> 'c issue list" where
  "validationAmbiguousCrossingTags entity graph =
     (case entity of
        Point i l t \<Rightarrow>
          (case parentWays graph i of
             [a, b] \<Rightarrow>
               if ambiguous (classify (entityTags a)) (classify (entityTags b)) (classify t)
               then [\<lparr>issueType = js ''ambiguous_crossing_tags'', severity = Warning,
                      entityIds = [entityId a, entityId b], loc = l,
                      key = issueKey (js ''ambiguous_crossing_tags'') [entityId a, entityId b]\<rparr>]
               else []
           | _ \<Rightarrow> [])
      | _ \<Rightarrow> [])"

subsection \<open>The test of the validator\<close>

text \<open>
  \<open>validate\<close> of the test: the validator runs on every entity of \<open>graph.base\<close> and the
  results are concatenated.
\<close>

definition validate :: "('c entity \<Rightarrow> 'c graph \<Rightarrow> 'c issue list) \<Rightarrow> 'c graph \<Rightarrow> 'c issue list" where
  "validate validator graph =
     foldl (\<lambda>issues entity. issues @ validator entity graph) [] (baseEntities graph)"

text \<open>\<open>createWaysWithOneCrossingNode\<close> of the test.\<close>

definition createWaysWithOneCrossingNode :: "tags \<Rightarrow> tags \<Rightarrow> tags \<Rightarrow> int graph" where
  "createWaysWithOneCrossingNode w1tags w2tags nodeTags =
     (let n5 = Point (js ''n-5'') (0, 0) nodeTags;
          n1 = Point (js ''n-1'') (0, -1) [];
          n2 = Point (js ''n-2'') (0, 1) [];
          w1 = Line (js ''w-1'') [js ''n-1'', js ''n-5'', js ''n-2''] w1tags;
          n3 = Point (js ''n-3'') (-1, 0) [];
          n4 = Point (js ''n-4'') (1, 0) [];
          w2 = Line (js ''w-2'') [js ''n-3'', js ''n-5'', js ''n-4''] w2tags
      in Graph [n1, n2, n3, n4, n5, w1, w2])"


text \<open>The tags of the test \<open>flags unmarked lines that share a marked crossing node\<close>.\<close>

definition unmarkedLineTags :: tags where
  "unmarkedLineTags =
     [(js ''crossing'', js ''unmarked''), (js ''highway'', js ''footway''), (js ''footway'', js ''crossing'')]"

definition residentialTags :: tags where
  "residentialTags = [(js ''highway'', js ''residential'')]"

definition markedNodeTags :: tags where
  "markedNodeTags = [(js ''crossing:markings'', js ''yes'')]"

text \<open>\<open>verifySingleCrossingIssue\<close> of the test: what it expects of the issues.\<close>

definition verifySingleCrossingIssue :: "int issue list \<Rightarrow> bool" where
  "verifySingleCrossingIssue issues \<longleftrightarrow>
     length issues = 1 \<and>
     list_all (\<lambda>issue. issueType issue = js ''ambiguous_crossing_tags'' \<and> severity issue = Warning \<and>
                 length (entityIds issue) = 2 \<and> loc issue = (0, 0)) issues"

section \<open>Properties of the entity\<close>

subsection \<open>The heap under property writes\<close>

lemma setProp_simps:
  "length (heap (setProp self p x st)) = length (heap st)"
  "nextv (setProp self p x st) = nextv st"
  "idnext (setProp self p x st) = idnext st"
  "a \<noteq> self \<Longrightarrow> heap (setProp self p x st) ! a = heap st ! a"
  "self < length (heap st) \<Longrightarrow> proto (heap (setProp self p x st) ! self) = proto (heap st ! self)"
  "self < length (heap st) \<Longrightarrow>
     map_of (props (heap (setProp self p x st) ! self)) = (map_of (props (heap st ! self)))(p \<mapsto> x)"
  by (simp_all add: setProp_def update_conv')

lemma deleteProp_simps:
  "length (heap (deleteProp self p st)) = length (heap st)"
  "nextv (deleteProp self p st) = nextv st"
  "idnext (deleteProp self p st) = idnext st"
  "a \<noteq> self \<Longrightarrow> heap (deleteProp self p st) ! a = heap st ! a"
  "self < length (heap st) \<Longrightarrow> proto (heap (deleteProp self p st) ! self) = proto (heap st ! self)"
  "self < length (heap st) \<Longrightarrow>
     map_of (props (heap (deleteProp self p st) ! self)) = (map_of (props (heap st ! self)))(p := None)"
  by (simp_all add: deleteProp_def delete_conv')

lemma copyProp_simps:
  "length (heap (copyProp self pv st)) = length (heap st)"
  "nextv (copyProp self pv st) = nextv st"
  "idnext (copyProp self pv st) = idnext st"
  "a \<noteq> self \<Longrightarrow> heap (copyProp self pv st) ! a = heap st ! a"
  "self < length (heap st) \<Longrightarrow> proto (heap (copyProp self pv st) ! self) = proto (heap st ! self)"
  by (simp_all add: copyProp_def setProp_simps deleteProp_simps)

lemma copyProp_map_of:
  "self < length (heap st) \<Longrightarrow>
     map_of (props (heap (copyProp self pv st) ! self)) =
       (map_of (props (heap st ! self)))(fst pv := (if snd pv = JUndefined then None else Some (snd pv)))"
  by (simp add: copyProp_def setProp_simps deleteProp_simps)

lemma fold_copyProp:
  "length (heap (fold (copyProp self) ps st)) = length (heap st)"
  "nextv (fold (copyProp self) ps st) = nextv st"
  "idnext (fold (copyProp self) ps st) = idnext st"
  "a \<noteq> self \<Longrightarrow> heap (fold (copyProp self) ps st) ! a = heap st ! a"
  "self < length (heap st) \<Longrightarrow>
     proto (heap (fold (copyProp self) ps st) ! self) = proto (heap st ! self)"
  "self < length (heap st) \<Longrightarrow>
     map_of (props (heap (fold (copyProp self) ps st) ! self)) = overlay (map_of (props (heap st ! self))) ps"
  by (induction ps arbitrary: st; simp add: copyProp_simps copyProp_map_of overlay_def)+

lemma fold_sources:
  "length (heap (fold (\<lambda>source. fold (copyProp self) (props source)) srcs st)) = length (heap st)"
  "nextv (fold (\<lambda>source. fold (copyProp self) (props source)) srcs st) = nextv st"
  "idnext (fold (\<lambda>source. fold (copyProp self) (props source)) srcs st) = idnext st"
  "a \<noteq> self \<Longrightarrow>
     heap (fold (\<lambda>source. fold (copyProp self) (props source)) srcs st) ! a = heap st ! a"
  "self < length (heap st) \<Longrightarrow>
     proto (heap (fold (\<lambda>source. fold (copyProp self) (props source)) srcs st) ! self) =
       proto (heap st ! self)"
  "self < length (heap st) \<Longrightarrow>
     map_of (props (heap (fold (\<lambda>source. fold (copyProp self) (props source)) srcs st) ! self)) =
       sourcesMap srcs (map_of (props (heap st ! self)))"
  by (induction srcs arbitrary: st; simp add: fold_copyProp sourcesMap_def)+

lemma overlay_Nil: "overlay m [] = m"
  by (simp add: overlay_def)

lemma overlay_Cons:
  "overlay m (pv # ps) = overlay (m(fst pv := (if snd pv = JUndefined then None else Some (snd pv)))) ps"
  by (simp add: overlay_def)

lemma overlay_notin: "p \<notin> fst ` set ps \<Longrightarrow> overlay m ps p = m p"
  by (induction ps arbitrary: m) (auto simp: overlay_Nil overlay_Cons)

lemma overlay_in:
  "distinct (map fst ps) \<Longrightarrow> (p, x) \<in> set ps \<Longrightarrow>
     overlay m ps p = (if x = JUndefined then None else Some x)"
proof (induction ps arbitrary: m)
  case Nil
  then show ?case by simp
next
  case (Cons pv ps)
  show ?case
  proof (cases "pv = (p, x)")
    case True
    with Cons.prems have "p \<notin> fst ` set ps" by auto
    with True show ?thesis by (simp add: overlay_notin overlay_Cons)
  next
    case False
    with Cons show ?thesis by (auto simp: overlay_Cons)
  qed
qed

lemma sourcesMap_two:
  "sourcesMap [e, patch] m = overlay (overlay m (props e)) (props patch)"
  by (simp add: sourcesMap_def)

lemma prop_names_distinct:
  "js ''id'' \<noteq> js ''visible''" "js ''id'' \<noteq> js ''v''" "js ''visible'' \<noteq> js ''v''"
  "js ''id'' \<noteq> js ''type''" "js ''tags'' \<noteq> js ''id''" "js ''tags'' \<noteq> js ''visible''"
  "js ''tags'' \<noteq> js ''v''" "js ''tags'' \<noteq> js ''type''" "js ''type'' \<noteq> js ''visible''"
  "js ''type'' \<noteq> js ''v''"
  by (simp_all add: js_def)

subsection \<open>\<open>initialize\<close>, the constructor and \<open>update\<close>\<close>

lemma osmEntity_id_effect:
  "osmEntity_id st t = Inr (st', i) \<Longrightarrow> heap st' = heap st \<and> nextv st' = nextv st"
  by (auto simp: osmEntity_id_def split: jsval.splits option.splits)

lemma initialize_cases:
  assumes "initialize st self sources = Inr st'"
  shows "\<exists>st3. allocId (fold (\<lambda>source. fold (copyProp self) (props source)) sources st) self st3 \<and>
           defaultVisible st3 self st'"
proof -
  let ?st1 = "fold (\<lambda>source. fold (copyProp self) (props source)) sources st"
  let ?this = "heap ?st1 ! self"
  let ?alloc = "if \<not> truthy (getProp ?this (js ''id'')) \<and> truthy (getProp ?this (js ''type''))
               then (case osmEntity_id ?st1 (getProp ?this (js ''type'')) of
                       Inl e \<Rightarrow> Inl e
                     | Inr (st2, newid) \<Rightarrow> Inr (setProp self (js ''id'') (JStr newid) st2))
               else Inr ?st1"
  from assms obtain st3 where a: "?alloc = Inr st3"
    and v: "st' = (if \<not> hasOwnProperty (heap st3 ! self) (js ''visible'')
                  then setProp self (js ''visible'') (JBool True) st3 else st3)"
    by (auto simp: initialize_def Let_def split: sum.splits)
  from a have "allocId ?st1 self st3"
    unfolding allocId_def
    by (auto split: if_splits sum.splits prod.splits dest: osmEntity_id_effect)
  moreover from v have "defaultVisible st3 self st'"
    unfolding defaultVisible_def hasOwnProperty_def by (auto split: if_splits)
  ultimately show ?thesis by blast
qed

lemma allocId_effect:
  assumes "allocId st1 self st3" and "self < length (heap st1)"
  shows "length (heap st3) = length (heap st1)"
    and "nextv st3 = nextv st1"
    and "a \<noteq> self \<Longrightarrow> heap st3 ! a = heap st1 ! a"
    and "proto (heap st3 ! self) = proto (heap st1 ! self)"
    and "p \<noteq> js ''id'' \<Longrightarrow> map_of (props (heap st3 ! self)) p = map_of (props (heap st1 ! self)) p"
    and "map_of (props (heap st1 ! self)) (js ''id'') = Some x \<Longrightarrow> truthy x \<Longrightarrow>
           map_of (props (heap st3 ! self)) (js ''id'') = Some x"
  using assms unfolding allocId_def
  by (auto simp: setProp_simps getProp_def)

lemma defaultVisible_effect:
  assumes "defaultVisible st3 self st'" and "self < length (heap st3)"
  shows "length (heap st') = length (heap st3)"
    and "nextv st' = nextv st3"
    and "a \<noteq> self \<Longrightarrow> heap st' ! a = heap st3 ! a"
    and "proto (heap st' ! self) = proto (heap st3 ! self)"
    and "p \<noteq> js ''visible'' \<Longrightarrow> map_of (props (heap st' ! self)) p = map_of (props (heap st3 ! self)) p"
    and "map_of (props (heap st3 ! self)) (js ''visible'') = Some y \<Longrightarrow>
           map_of (props (heap st' ! self)) (js ''visible'') = Some y"
  using assms unfolding defaultVisible_def
  by (auto simp: setProp_simps)

lemma initialize_effect:
  assumes "initialize st self sources = Inr st'" and "self < length (heap st)"
  shows "length (heap st') = length (heap st)"
    and "nextv st' = nextv st"
    and "a \<noteq> self \<Longrightarrow> heap st' ! a = heap st ! a"
    and "proto (heap st' ! self) = proto (heap st ! self)"
    and "p \<noteq> js ''id'' \<Longrightarrow> p \<noteq> js ''visible'' \<Longrightarrow>
           map_of (props (heap st' ! self)) p = sourcesMap sources (map_of (props (heap st ! self))) p"
    and "sourcesMap sources (map_of (props (heap st ! self))) (js ''id'') = Some x \<Longrightarrow> truthy x \<Longrightarrow>
           map_of (props (heap st' ! self)) (js ''id'') = Some x"
    and "sourcesMap sources (map_of (props (heap st ! self))) (js ''visible'') = Some y \<Longrightarrow>
           map_of (props (heap st' ! self)) (js ''visible'') = Some y"
proof -
  let ?st1 = "fold (\<lambda>source. fold (copyProp self) (props source)) sources st"
  from initialize_cases [OF assms(1)] obtain st3
    where a: "allocId ?st1 self st3" and v: "defaultVisible st3 self st'" by blast
  have l1: "self < length (heap ?st1)" using assms(2) by (simp add: fold_sources)
  have l3: "self < length (heap st3)" using allocId_effect(1) [OF a l1] l1 by simp
  note A = allocId_effect [OF a l1]
  note V = defaultVisible_effect [OF v l3]
  note F = fold_sources [where self=self and srcs=sources and st=st]
  show "length (heap st') = length (heap st)" using A(1) V(1) F(1) by simp
  show "nextv st' = nextv st" using A(2) V(2) F(2) by simp
  show "a \<noteq> self \<Longrightarrow> heap st' ! a = heap st ! a" using A(3) V(3) F(4) by simp
  show "proto (heap st' ! self) = proto (heap st ! self)" using A(4) V(4) F(5) assms(2) by simp
  show "p \<noteq> js ''id'' \<Longrightarrow> p \<noteq> js ''visible'' \<Longrightarrow>
           map_of (props (heap st' ! self)) p = sourcesMap sources (map_of (props (heap st ! self))) p"
    using A(5) V(5) F(6) assms(2) by simp
  show "sourcesMap sources (map_of (props (heap st ! self))) (js ''id'') = Some x \<Longrightarrow> truthy x \<Longrightarrow>
           map_of (props (heap st' ! self)) (js ''id'') = Some x"
    using A(6) [of x] V(5) [of "js ''id''"] F(6) assms(2) prop_names_distinct by simp
  show "sourcesMap sources (map_of (props (heap st ! self))) (js ''visible'') = Some y \<Longrightarrow>
           map_of (props (heap st' ! self)) (js ''visible'') = Some y"
    using A(5) [of "js ''visible''"] V(6) [of y] F(6) assms(2) prop_names_distinct by simp
qed

lemma construct_effect:
  assumes "construct c st args = Inr (st', r)"
  shows "r = length (heap st)"
    and "length (heap st') = Suc (length (heap st))"
    and "nextv st' = nextv st"
    and "a < length (heap st) \<Longrightarrow> heap st' ! a = heap st ! a"
    and "proto (heap st' ! r) = c"
    and "p \<noteq> js ''id'' \<Longrightarrow> p \<noteq> js ''visible'' \<Longrightarrow>
           map_of (props (heap st' ! r)) p = sourcesMap args Map.empty p"
    and "sourcesMap args Map.empty (js ''id'') = Some x \<Longrightarrow> truthy x \<Longrightarrow>
           map_of (props (heap st' ! r)) (js ''id'') = Some x"
    and "sourcesMap args Map.empty (js ''visible'') = Some y \<Longrightarrow>
           map_of (props (heap st' ! r)) (js ''visible'') = Some y"
proof -
  let ?st0 = "st\<lparr>heap := heap st @ [\<lparr>proto = c, props = []\<rparr>]\<rparr>"
  from assms have r: "r = length (heap st)" and i: "initialize ?st0 r args = Inr st'"
    by (auto simp: construct_def Let_def split: sum.splits)
  have l: "r < length (heap ?st0)" using r by simp
  note I = initialize_effect [OF i l]
  have h0: "map_of (props (heap ?st0 ! r)) = Map.empty" using r by simp
  show "r = length (heap st)" by (rule r)
  show "length (heap st') = Suc (length (heap st))" using I(1) by simp
  show "nextv st' = nextv st" using I(2) by simp
  show "a < length (heap st) \<Longrightarrow> heap st' ! a = heap st ! a"
    using I(3) [of a] r by (simp add: nth_append)
  show "proto (heap st' ! r) = c" using I(4) r by simp
  show "p \<noteq> js ''id'' \<Longrightarrow> p \<noteq> js ''visible'' \<Longrightarrow>
           map_of (props (heap st' ! r)) p = sourcesMap args Map.empty p"
    using I(5) [of p] h0 by simp
  show "sourcesMap args Map.empty (js ''id'') = Some x \<Longrightarrow> truthy x \<Longrightarrow>
           map_of (props (heap st' ! r)) (js ''id'') = Some x"
    using I(6) [of x] h0 by simp
  show "sourcesMap args Map.empty (js ''visible'') = Some y \<Longrightarrow>
           map_of (props (heap st' ! r)) (js ''visible'') = Some y"
    using I(7) [of y] h0 by simp
qed

lemma osmEntity_construct:
  "osmEntity st args = Inr (st', r) \<Longrightarrow> \<exists>c. construct c st args = Inr (st', r)"
  by (auto simp: osmEntity_def split: list.splits if_splits option.splits sum.splits)

lemma touch_effect:
  "length (heap (touch st r)) = length (heap st)"
  "nextv (touch st r) = nextv st + 1"
  "a \<noteq> r \<Longrightarrow> heap (touch st r) ! a = heap st ! a"
  "r < length (heap st) \<Longrightarrow> proto (heap (touch st r) ! r) = proto (heap st ! r)"
  "r < length (heap st) \<Longrightarrow>
     map_of (props (heap (touch st r) ! r)) = (map_of (props (heap st ! r)))(js ''v'' \<mapsto> JNum (nextv st))"
  by (simp_all add: touch_def setProp_simps)

lemma update_construct:
  assumes "update st this attrs = Inr (st', r)"
  shows "\<exists>c st1. construct c st [heap st ! this, \<lparr>proto = Plain, props = attrs\<rparr>] = Inr (st1, r) \<and>
           st' = touch st1 r"
  using assms osmEntity_construct
  by (fastforce simp: update_def split: sum.splits prod.splits)

lemma update_effect:
  assumes "this < length (heap st)"
      and "distinct (map fst attrs)"
      and "update st this attrs = Inr (st', r)"
  shows "\<forall>a < length (heap st). heap st' ! a = heap st ! a"
    and "r = length (heap st)"
    and "length (heap st') = Suc (length (heap st))"
    and "map_of (props (heap st' ! r)) (js ''v'') = Some (JNum (nextv st))"
    and "nextv st' = nextv st + 1"
    and "(p, x) \<in> set attrs \<Longrightarrow> x \<noteq> JUndefined \<Longrightarrow> p \<noteq> js ''v'' \<Longrightarrow> (p = js ''id'' \<longrightarrow> truthy x) \<Longrightarrow>
           map_of (props (heap st' ! r)) p = Some x"
    and "(p, JUndefined) \<in> set attrs \<Longrightarrow> p \<noteq> js ''v'' \<Longrightarrow> p \<noteq> js ''id'' \<Longrightarrow> p \<noteq> js ''visible'' \<Longrightarrow>
           map_of (props (heap st' ! r)) p = None"
proof -
  let ?args = "[heap st ! this, \<lparr>proto = Plain, props = attrs\<rparr>]"
  from update_construct [OF assms(3)] obtain c st1
    where c: "construct c st ?args = Inr (st1, r)" and t: "st' = touch st1 r" by blast
  note C = construct_effect [OF c]
  show r: "r = length (heap st)" by (rule C(1))
  have rl: "r < length (heap st1)" using C(1) C(2) by simp
  have old: "heap st' ! a = heap st ! a" if "a < length (heap st)" for a
    using that t r C(4) [of a] touch_effect(3) [of a r st1] by simp
  then show "\<forall>a < length (heap st). heap st' ! a = heap st ! a" by simp
  show "length (heap st') = Suc (length (heap st))" using t C(2) by (simp add: touch_effect)
  show "map_of (props (heap st' ! r)) (js ''v'') = Some (JNum (nextv st))"
    using t rl C(3) by (simp add: touch_effect)
  show "nextv st' = nextv st + 1" using t C(3) by (simp add: touch_effect)
  have sm: "sourcesMap ?args Map.empty q = (if y = JUndefined then None else Some y)"
    if "(q, y) \<in> set attrs" for q y
    using that assms(2) by (simp add: overlay_in sourcesMap_two)
  show "map_of (props (heap st' ! r)) p = Some x"
    if "(p, x) \<in> set attrs" "x \<noteq> JUndefined" "p \<noteq> js ''v''" "p = js ''id'' \<longrightarrow> truthy x"
  proof -
    have s: "sourcesMap ?args Map.empty p = Some x" using sm [OF that(1)] that(2) by simp
    have "map_of (props (heap st1 ! r)) p = Some x"
    proof (cases "p = js ''id''")
      case True
      with that(4) s C(7) [of x] show ?thesis by simp
    next
      case False
      show ?thesis
      proof (cases "p = js ''visible''")
        case True
        with s C(8) [of x] show ?thesis by simp
      next
        case False
        with \<open>p \<noteq> js ''id''\<close> s C(6) [of p] show ?thesis by simp
      qed
    qed
    then show ?thesis using t rl that(3) by (simp add: touch_effect)
  qed
  show "map_of (props (heap st' ! r)) p = None"
    if "(p, JUndefined) \<in> set attrs" "p \<noteq> js ''v''" "p \<noteq> js ''id''" "p \<noteq> js ''visible''"
  proof -
    have "map_of (props (heap st1 ! r)) p = None"
      using sm [OF that(1)] C(6) [of p] that by simp
    then show ?thesis using t rl that(2) by (simp add: touch_effect)
  qed
qed

lemma code_unit_inj: "(of_nat (of_char c) :: 16 word) = of_nat (of_char d) \<longleftrightarrow> c = d"
proof
  assume "(of_nat (of_char c) :: 16 word) = of_nat (of_char d)"
  then have "unat (of_nat (of_char c) :: 16 word) = unat (of_nat (of_char d) :: 16 word)" by simp
  moreover have "(of_char c :: nat) < 65536" "(of_char d :: nat) < 65536"
    using nat_of_char_less_256 [of c] nat_of_char_less_256 [of d] by linarith+
  ultimately have "(of_char c :: nat) = of_char d" by (simp add: unat_of_nat)
  then show "c = d" by simp
qed simp

lemma js_eq_iff: "js a = js b \<longleftrightarrow> a = b"
proof (induction a arbitrary: b)
  case Nil
  then show ?case by (auto simp: js_def)
next
  case (Cons c a)
  then show ?case by (cases b) (auto simp: js_def code_unit_inj)
qed



subsection \<open>The merge loop\<close>

lemma building_not_inherited: "js ''building'' \<notin> set objectPrototypeNames"
  by code_simp

lemma proto_inherited: "js ''__proto__'' \<in> set objectPrototypeNames"
  by code_simp

lemma getTag_cases:
  "getTag merged k = Absent \<longleftrightarrow> map_of merged k = None \<and> k \<notin> set objectPrototypeNames"
  "getTag merged k = Inherited \<longleftrightarrow> map_of merged k = None \<and> k \<in> set objectPrototypeNames"
  "getTag merged k = Own x \<longleftrightarrow> map_of merged k = Some x"
  by (auto simp: getTag_def split: option.splits)

lemma mergeStep_map_of:
  assumes "mergeStep (k, t2) (merged, changed) = Inr (m, c)"
  shows "map_of m = (map_of merged)(k := resolveTag k (map_of merged k) (Some t2))"
proof (cases "getTag merged k")
  case Absent
  with assms show ?thesis
    by (auto simp: mergeStep_def Let_def resolveTag_def update_conv' getTag_cases)
next
  case (Own t1)
  then have m: "map_of merged k = Some t1" by (simp add: getTag_cases)
  then have triv: "(map_of merged)(k \<mapsto> t1) = map_of merged" by (simp add: fun_upd_idem)
  from assms Own m triv show ?thesis
    by (auto simp: mergeStep_def Let_def resolveTag_def update_conv' mergedValue_def split: if_splits)
next
  case Inherited
  with assms have "k = js ''building''"
    by (auto simp: mergeStep_def Let_def split: if_splits)
  with Inherited building_not_inherited show ?thesis by (simp add: getTag_cases)
qed

lemma mergeStep_succeeds:
  assumes "k \<notin> set objectPrototypeNames \<or> map_of merged k \<noteq> None"
  shows "\<exists>m c. mergeStep (k, t2) (merged, changed) = Inr (m, c)"
proof (cases "getTag merged k")
  case Inherited
  with assms show ?thesis by (auto simp: getTag_cases)
qed (auto simp: mergeStep_def Let_def)

text \<open>A key that \<open>merged\<close> only inherits: \<open>t1.split\<close> raises.\<close>

lemma mergeStep_inherited:
  assumes "k \<in> set objectPrototypeNames" and "map_of merged k = None"
  shows "mergeStep (k, t2) (merged, changed) = Inl TypeError"
proof -
  from assms have "getTag merged k = Inherited" by (simp add: getTag_cases)
  moreover from assms(1) building_not_inherited have "k \<noteq> js ''building''" by auto
  ultimately show ?thesis by (simp add: mergeStep_def Let_def)
qed

lemma mergeStep_unchanged:
  assumes "mergeStep (k, t2) (merged, changed) = Inr (m, c)" and "\<not> c"
  shows "m = merged \<and> \<not> changed"
  using assms by (auto simp: mergeStep_def Let_def split: if_splits tagval.splits)

lemma mergeStep_identity:
  assumes "map_of merged k = Some t2" and "t2 \<noteq> []"
  shows "mergeStep (k, t2) (merged, changed) = Inr (merged, changed)"
  using assms by (auto simp: mergeStep_def Let_def getTag_def)

lemma mergeLoop_map_of:
  assumes "mergeLoop tags (merged, changed) = Inr (m, c)" and "distinct (map fst tags)"
  shows "map_of m k = resolveTag k (map_of merged k) (map_of tags k)"
  using assms
proof (induction tags arbitrary: merged changed)
  case Nil
  then show ?case by (simp add: resolveTag_def)
next
  case (Cons kv rest)
  obtain k' t2 where kv: "kv = (k', t2)" by (cases kv)
  from Cons.prems(1) kv obtain m1 c1
    where s: "mergeStep (k', t2) (merged, changed) = Inr (m1, c1)"
      and l: "mergeLoop rest (m1, c1) = Inr (m, c)"
    by (auto split: sum.splits)
  from Cons.prems(2) kv have d: "distinct (map fst rest)" and n: "k' \<notin> fst ` set rest" by auto
  have ih: "map_of m k = resolveTag k (map_of m1 k) (map_of rest k)"
    by (rule Cons.IH [OF l d])
  note st = mergeStep_map_of [OF s]
  show ?case
  proof (cases "k = k'")
    case True
    with n have "map_of rest k = None" by (simp add: map_of_eq_None_iff)
    with ih st True kv show ?thesis by (simp add: resolveTag_def)
  next
    case False
    with ih st kv show ?thesis by simp
  qed
qed

lemma mergeLoop_succeeds:
  assumes "\<forall>k \<in> fst ` set tags. k \<notin> set objectPrototypeNames"
  shows "\<exists>m c. mergeLoop tags (merged, changed) = Inr (m, c)"
  using assms
proof (induction tags arbitrary: merged changed)
  case Nil
  then show ?case by simp
next
  case (Cons kv rest)
  obtain k t2 where kv: "kv = (k, t2)" by (cases kv)
  with Cons.prems have "k \<notin> set objectPrototypeNames" by simp
  then obtain m1 c1 where "mergeStep (k, t2) (merged, changed) = Inr (m1, c1)"
    using mergeStep_succeeds by blast
  moreover from Cons have "\<exists>m c. mergeLoop rest (m1, c1) = Inr (m, c)" by simp
  ultimately show ?case using kv by simp
qed

text \<open>
  Where the loop returns, the argument has no key that \<open>merged\<close> only inherits: the
  loop gives \<open>merged\<close> no such key before it comes to it.
\<close>

lemma mergeLoop_returns:
  assumes "mergeLoop tags (merged, changed) = Inr (m, c)"
      and "k \<in> set objectPrototypeNames" and "map_of merged k = None"
  shows "k \<notin> fst ` set tags"
  using assms
proof (induction tags arbitrary: merged changed)
  case Nil
  then show ?case by simp
next
  case (Cons kv rest)
  obtain k' t2 where kv: "kv = (k', t2)" by (cases kv)
  from Cons.prems(1) kv obtain m1 c1
    where s: "mergeStep (k', t2) (merged, changed) = Inr (m1, c1)"
      and l: "mergeLoop rest (m1, c1) = Inr (m, c)"
    by (auto split: sum.splits)
  have ne: "k' \<noteq> k"
  proof
    assume "k' = k"
    with s mergeStep_inherited [OF Cons.prems(2,3), of t2 changed] show False by simp
  qed
  with mergeStep_map_of [OF s] Cons.prems(3) have "map_of m1 k = None" by simp
  from Cons.IH [OF l Cons.prems(2) this] ne kv show ?case by simp
qed

lemma mergeLoop_unchanged:
  assumes "mergeLoop tags (merged, changed) = Inr (m, c)" and "\<not> c"
  shows "m = merged \<and> \<not> changed"
  using assms
proof (induction tags arbitrary: merged changed)
  case Nil
  then show ?case by simp
next
  case (Cons kv rest)
  obtain k t2 where kv: "kv = (k, t2)" by (cases kv)
  from Cons.prems(1) kv obtain m1 c1
    where s: "mergeStep (k, t2) (merged, changed) = Inr (m1, c1)"
      and l: "mergeLoop rest (m1, c1) = Inr (m, c)"
    by (auto split: sum.splits)
  from Cons.IH [OF l Cons.prems(2)] have "m = m1" "\<not> c1" by simp_all
  with mergeStep_unchanged [OF s] show ?case by simp
qed

lemma mergeLoop_identity:
  assumes "\<forall>kv \<in> set tags. map_of merged (fst kv) = Some (snd kv) \<and> snd kv \<noteq> []"
  shows "mergeLoop tags (merged, changed) = Inr (merged, changed)"
  using assms
proof (induction tags)
  case Nil
  then show ?case by simp
next
  case (Cons kv rest)
  then have "mergeStep kv (merged, changed) = Inr (merged, changed)"
    using mergeStep_identity [of merged "fst kv" "snd kv" changed] by simp
  with Cons show ?case by simp
qed

subsection \<open>\<open>Object.assign\<close>\<close>

lemma update_fresh_key: "k \<notin> fst ` set al \<Longrightarrow> AList.update k x al = al @ [(k, x)]"
  by (induction al) auto

lemma Object_assign_acc:
  "distinct (map fst (acc @ src)) \<Longrightarrow>
     fold (\<lambda>kv m. if fst kv = p then m else AList.update (fst kv) (snd kv) m) src acc =
       acc @ filter (\<lambda>kv. fst kv \<noteq> p) src"
proof (induction src arbitrary: acc)
  case Nil
  then show ?case by simp
next
  case (Cons kv src)
  show ?case
  proof (cases "fst kv = p")
    case True
    from Cons.prems have "distinct (map fst (acc @ src))" by simp
    from Cons.IH [OF this] True show ?thesis by simp
  next
    case False
    from Cons.prems have "fst kv \<notin> fst ` set acc" by auto
    then have u: "AList.update (fst kv) (snd kv) acc = acc @ [kv]" by (simp add: update_fresh_key)
    from Cons.prems have "distinct (map fst ((acc @ [kv]) @ src))" by simp
    from Cons.IH [OF this] u False show ?thesis by simp
  qed
qed

text \<open>The copy of a tag map: the same entries in the same order, the key \<open>__proto__\<close> left out.\<close>

lemma Object_assign_distinct:
  "distinct (map fst src) \<Longrightarrow> Object_assign src = filter (\<lambda>kv. fst kv \<noteq> js ''__proto__'') src"
  using Object_assign_acc [of "[]" src "js ''__proto__''"] by (simp add: Object_assign_def)

lemma map_of_filter_key:
  "map_of (filter (\<lambda>kv. fst kv \<noteq> p) src) k = (if k = p then None else map_of src k)"
  by (induction src) auto

lemma Object_assign_map_of:
  "distinct (map fst src) \<Longrightarrow>
     map_of (Object_assign src) k = (if k = js ''__proto__'' then None else map_of src k)"
  by (simp add: Object_assign_distinct map_of_filter_key)

lemma Object_assign_same:
  assumes "distinct (map fst src)" and "js ''__proto__'' \<notin> fst ` set src"
  shows "Object_assign src = src"
proof -
  from assms(2) have "filter (\<lambda>kv. fst kv \<noteq> js ''__proto__'') src = src"
    by (induction src) auto
  with assms(1) show ?thesis by (simp add: Object_assign_distinct)
qed

subsection \<open>Truncation by code points\<close>

lemma codePoints_head: "\<exists>x xs. codePoints (d # cs) = (d # x) # xs"
  by (cases cs) auto

lemma codePoints_take:
  "codePoints (concat (take n (codePoints s))) = take n (codePoints s)"
proof (induction s arbitrary: n rule: codePoints.induct)
  case 1
  then show ?case by simp
next
  case (2 c)
  then show ?case by (cases n) simp_all
next
  case (3 c d cs)
  show ?case
  proof (cases n)
    case 0
    then show ?thesis by simp
  next
    case (Suc m)
    show ?thesis
    proof (cases "isHighSurrogate c \<and> isLowSurrogate d")
      case True
      with Suc "3.IH"(1) [of m] show ?thesis by simp
    next
      case False
      note ih = "3.IH"(2) [OF False, of m]
      have cp: "codePoints (c # d # r) = [c] # codePoints (d # r)" for r
        using False by auto
      show ?thesis
      proof (cases m)
        case 0
        with \<open>n = Suc m\<close> cp [of cs] show ?thesis by simp
      next
        case (Suc m')
        obtain x xs where h: "codePoints (d # cs) = (d # x) # xs"
          using codePoints_head by blast
        with Suc have e: "concat (take m (codePoints (d # cs))) = d # (x @ concat (take m' xs))"
          by simp
        have "concat (take n (codePoints (c # d # cs))) = c # d # (x @ concat (take m' xs))"
          using \<open>n = Suc m\<close> cp [of cs] e by simp
        then have "codePoints (concat (take n (codePoints (c # d # cs)))) =
                     [c] # codePoints (d # (x @ concat (take m' xs)))"
          using cp [of "x @ concat (take m' xs)"] by simp
        also have "\<dots> = [c] # take m (codePoints (d # cs))" using ih e by simp
        also have "\<dots> = take n (codePoints (c # d # cs))"
          using \<open>n = Suc m\<close> cp [of cs] by simp
        finally show ?thesis .
      qed
    qed
  qed
qed

lemma truncated_code_points:
  "length (codePoints (utilUnicodeCharsTruncated s n)) \<le> n"
  by (simp add: utilUnicodeCharsTruncated_def codePoints_take)

lemma truncated_short:
  "length (codePoints s) \<le> n \<Longrightarrow> utilUnicodeCharsTruncated s n = s"
proof -
  have "concat (codePoints s) = s"
    by (induction s rule: codePoints.induct) auto
  then show "length (codePoints s) \<le> n \<Longrightarrow> utilUnicodeCharsTruncated s n = s"
    by (simp add: utilUnicodeCharsTruncated_def)
qed

subsection \<open>\<open>mergeTags\<close>\<close>

text \<open>
  Merging tags that add nothing returns the receiver itself, in the unchanged state:
  every entry of the argument is an entry of the receiver's tags with a non-empty
  value, and no key of the argument is \<open>__proto__\<close>.
\<close>

lemma mergeTags_nothing_new:
  assumes "thisTags (heap st ! this) = Inr own"
      and "distinct (map fst own)"
      and "\<forall>kv \<in> set tags. snd kv \<noteq> []"
      and "set tags \<subseteq> set own"
      and "js ''__proto__'' \<notin> fst ` set tags"
  shows "mergeTags st this tags = Inr (st, this)"
proof -
  have "mergeLoop tags (Object_assign own, False) = Inr (Object_assign own, False)"
  proof (rule mergeLoop_identity, rule ballI)
    fix kv assume t: "kv \<in> set tags"
    with assms(4) have m: "kv \<in> set own" by auto
    with assms(2) have "map_of own (fst kv) = Some (snd kv)"
      using map_of_is_SomeI [of own "fst kv" "snd kv"] by simp
    moreover from t assms(5) have "fst kv \<noteq> js ''__proto__''" by (metis imageI)
    ultimately show "map_of (Object_assign own) (fst kv) = Some (snd kv) \<and> snd kv \<noteq> []"
      using t assms(2,3) by (simp add: Object_assign_map_of)
  qed
  with assms(1) show ?thesis by (simp add: mergeTags_def)
qed

lemma mergeTags_nothing_new_example:
  "mergeTags exampleState 0 [(js ''name'', js ''Main Street''), (js ''building'', js ''yes'')] =
     Inr (exampleState, 0) \<and>
   mergeTags exampleState 0 [(js ''building'', js ''yes'')] = Inr (exampleState, 0)"
  by code_simp

text \<open>
  A merge that changes the tags of the node \<open>n3\<close> does not carry its tag \<open>__proto__\<close>
  over: the result has the new tag only.
\<close>

lemma mergeTags_drops_own_proto_tag:
  "tagAfterMerge protoTagState 0 [(js ''name'', js ''b'')] (js ''name'') = Inr (Some (js ''b'')) \<and>
   tagAfterMerge protoTagState 0 [(js ''name'', js ''b'')] (js ''__proto__'') = Inr None"
  by code_simp

text \<open>
  C10: \<open>e.mergeTags(e.tags)\<close> does not return \<open>e\<close> for every entity whose tag values
  are non-empty.  The node \<open>n3\<close> has the one tag \<open>__proto__\<close> with the value \<open>x\<close>;
  merging its own tags into it raises a \<open>TypeError\<close>: the copy \<open>merged\<close> has no own
  property of this name, so \<open>merged[k]\<close> reads the inherited one, which has no \<open>split\<close>.
\<close>

theorem mergeTags_own_proto_tag_raises:
  "thisTags (heap protoTagState ! 0) = Inr [(js ''__proto__'', js ''x'')] \<and>
   mergeTags protoTagState 0 [(js ''__proto__'', js ''x'')] = Inl TypeError"
  by code_simp

text \<open>
  C8: \<open>mergeTags\<close> is not total.  The argument \<open>{constructor: 'x'}\<close> is a tag map with
  a string value; the node \<open>n1\<close> has no tag of this name, so \<open>merged[k]\<close> reads the
  method that \<open>merged\<close> inherits from \<open>Object.prototype\<close>, and \<open>t1.split\<close> raises a
  \<open>TypeError\<close>.  There is no test that \<open>merged\<close> has the key itself.
\<close>

theorem mergeTags_inherited_key_raises:
  "thisTags (heap exampleState ! 0) = Inr [(js ''name'', js ''Main Street''), (js ''building'', js ''yes'')] \<and>
   mergeTags exampleState 0 [(js ''constructor'', js ''x'')] = Inl TypeError"
  by code_simp

text \<open>
  C1, as the code has it: when \<open>mergeTags\<close> returns, the tags of the entity it returns
  hold under every key \<open>k\<close> other than \<open>__proto__\<close> the value \<open>resolveTag k\<close> of the two
  sides.  A key of one side only keeps that side's value; a receiver's value that is
  empty counts as missing; under \<open>building\<close> a \<open>yes\<close> of the receiver gives way to any
  other value of the argument and every other value of the receiver stays, also against
  a different value of the argument that is not \<open>yes\<close>; under any other key equal
  values stay and different ones become the union of the two lists, split at a
  semicolon with the white space after it, joined by semicolons and truncated, which
  leaves at most 255 code points.  The argument of a call that returns has no key
  \<open>__proto__\<close>.
\<close>

theorem mergeTags_resolves:
  assumes "this < length (heap st)"
      and "thisTags (heap st ! this) = Inr own"
      and "distinct (map fst own)"
      and "distinct (map fst tags)"
      and "mergeTags st this tags = Inr (st', r)"
  shows "\<exists>result. thisTags (heap st' ! r) = Inr result \<and>
           (\<forall>k. k \<noteq> js ''__proto__'' \<longrightarrow>
                  map_of result k = resolveTag k (map_of own k) (map_of tags k)) \<and>
           map_of tags (js ''__proto__'') = None \<and>
           (\<forall>t1 t2. length (codePoints (mergedValue t1 t2)) \<le> 255)"
proof -
  from assms(2,5) obtain m c
    where l: "mergeLoop tags (Object_assign own, False) = Inr (m, c)"
      and res: "(if c then update st this [(js ''tags'', JTags m)] else Inr (st, this)) = Inr (st', r)"
    by (auto simp: mergeTags_def split: sum.splits prod.splits)
  have look: "map_of m k = resolveTag k (map_of own k) (map_of tags k)" if "k \<noteq> js ''__proto__''" for k
    using mergeLoop_map_of [OF l assms(4)] assms(3) that by (simp add: Object_assign_map_of)
  have "map_of (Object_assign own) (js ''__proto__'') = None"
    using assms(3) by (simp add: Object_assign_map_of)
  from mergeLoop_returns [OF l proto_inherited this]
  have noproto: "map_of tags (js ''__proto__'') = None" by (simp add: map_of_eq_None_iff)
  have bound: "\<forall>t1 t2. length (codePoints (mergedValue t1 t2)) \<le> 255"
    by (simp add: mergedValue_def truncated_code_points)
  show ?thesis
  proof (cases c)
    case False
    with res have "st' = st" "r = this" by simp_all
    moreover from mergeLoop_unchanged [OF l False] have "m = Object_assign own" by simp
    with assms(3) have "map_of m k = map_of own k" if "k \<noteq> js ''__proto__''" for k
      using that by (simp add: Object_assign_map_of)
    with look have "\<forall>k. k \<noteq> js ''__proto__'' \<longrightarrow>
        map_of own k = resolveTag k (map_of own k) (map_of tags k)" by simp
    ultimately show ?thesis using assms(2) noproto bound by blast
  next
    case True
    with res have u: "update st this [(js ''tags'', JTags m)] = Inr (st', r)" by simp
    have "distinct (map fst [(js ''tags'', JTags m)])" by simp
    from update_effect(6) [OF assms(1) this u, of "js ''tags''" "JTags m"]
    have "map_of (props (heap st' ! r)) (js ''tags'') = Some (JTags m)"
      using prop_names_distinct by simp
    then have "thisTags (heap st' ! r) = Inr m" by (simp add: thisTags_def)
    with look noproto bound show ?thesis by blast
  qed
qed

text \<open>
  The theorem at an example: \<open>cuisine\<close> is new, the two values of \<open>name\<close> are united and
  the \<open>yes\<close> of \<open>building\<close> gives way.
\<close>

theorem mergeTags_resolves_witness:
  "\<exists>st' r result.
     mergeTags exampleState 0
       [(js ''name'', js ''High Street; Main Street''), (js ''building'', js ''house''),
        (js ''cuisine'', js ''pizza'')] = Inr (st', r) \<and>
     thisTags (heap st' ! r) = Inr result \<and>
     map_of result (js ''name'') = Some (js ''Main Street;High Street'') \<and>
     map_of result (js ''building'') = Some (js ''house'') \<and>
     map_of result (js ''cuisine'') = Some (js ''pizza'')"
proof -
  let ?tags = "[(js ''name'', js ''High Street; Main Street''), (js ''building'', js ''house''),
                (js ''cuisine'', js ''pizza'')]"
  let ?own = "[(js ''name'', js ''Main Street''), (js ''building'', js ''yes'')]"
  have l: "0 < length (heap exampleState)" by code_simp
  have "case mergeTags exampleState 0 ?tags of Inl e \<Rightarrow> False | Inr x \<Rightarrow> True" by code_simp
  then obtain st' r where m: "mergeTags exampleState 0 ?tags = Inr (st', r)"
    by (auto split: sum.splits)
  have o: "thisTags (heap exampleState ! 0) = Inr ?own" by code_simp
  have d: "distinct (map fst ?own)" "distinct (map fst ?tags)" by code_simp+
  have n: "js ''name'' \<noteq> js ''__proto__''" "js ''building'' \<noteq> js ''__proto__''"
    "js ''cuisine'' \<noteq> js ''__proto__''" by (simp_all add: js_eq_iff)
  from mergeTags_resolves [OF l o d m] obtain result
    where t: "thisTags (heap st' ! r) = Inr result"
      and r: "\<And>k. k \<noteq> js ''__proto__'' \<Longrightarrow>
                 map_of result k = resolveTag k (map_of ?own k) (map_of ?tags k)" by blast
  have "resolveTag (js ''name'') (map_of ?own (js ''name'')) (map_of ?tags (js ''name'')) =
          Some (js ''Main Street;High Street'')" by code_simp
  moreover have "resolveTag (js ''building'') (map_of ?own (js ''building'')) (map_of ?tags (js ''building'')) =
          Some (js ''house'')" by code_simp
  moreover have "resolveTag (js ''cuisine'') (map_of ?own (js ''cuisine'')) (map_of ?tags (js ''cuisine'')) =
          Some (js ''pizza'')" by code_simp
  ultimately show ?thesis using m t r [OF n(1)] r [OF n(2)] r [OF n(3)] by metis
qed

text \<open>
  The claim C1 as stated fails, twice.  The receiver holds the empty string under \<open>name\<close>
  and the argument holds \<open>a\<close>, two different string values under a key other than
  \<open>building\<close>: the policy of the spec gives the union \<open>;a\<close>, \<open>mergeTags\<close> gives \<open>a\<close>.
  And the receiver holds \<open>Main Street\<close> where the argument holds \<open>a; b\<close>: split at the
  semicolons the union is \<open>Main Street;a; b\<close>, \<open>mergeTags\<close> gives \<open>Main Street;a;b\<close>.
\<close>

theorem mergeTags_resolves_counterexample:
  "tagAfterMerge emptyNameState 0 [(js ''name'', js ''a'')] (js ''name'') = Inr (Some (js ''a'')) \<and>
   specResolve (js ''name'') (Some []) (Some (js ''a'')) = Some (js '';a'') \<and>
   tagAfterMerge exampleState 0 [(js ''name'', js ''a; b'')] (js ''name'') =
     Inr (Some (js ''Main Street;a;b'')) \<and>
   specResolve (js ''name'') (Some (js ''Main Street'')) (Some (js ''a; b'')) =
     Some (js ''Main Street;a; b'')"
  by code_simp

subsection \<open>Version stamps\<close>

text \<open>
  Two updates in a row, of any receivers: both results carry a stamp drawn from
  \<open>_nextv\<close>, and the later stamp is the greater one.
\<close>

lemma later_update_greater_stamp:
  assumes "this < length (heap st)" and "distinct (map fst p1)"
      and "update st this p1 = Inr (st1, b)"
      and "that < length (heap st1)" and "distinct (map fst p2)"
      and "update st1 that p2 = Inr (st2, c)"
  shows "map_of (props (heap st2 ! b)) (js ''v'') = Some (JNum (nextv st)) \<and>
         map_of (props (heap st2 ! c)) (js ''v'') = Some (JNum (nextv st + 1))"
proof -
  note U1 = update_effect [OF assms(1-3)]
  note U2 = update_effect [OF assms(4-6)]
  from U1(2,3) have "b < length (heap st1)" by simp
  with U2(1) have "heap st2 ! b = heap st1 ! b" by simp
  with U1(4) U1(5) U2(4) show ?thesis by simp
qed

text \<open>
  As long as every stamp in the heap is below \<open>_nextv\<close>, an update keeps it so, and
  its stamp is greater than every stamp that existed before.
\<close>

lemma update_appends:
  assumes "this < length (heap st)" and "distinct (map fst attrs)"
      and "update st this attrs = Inr (st', r)"
  shows "heap st' = heap st @ [heap st' ! r]"
proof (rule nth_equalityI)
  note U = update_effect [OF assms]
  show "length (heap st') = length (heap st @ [heap st' ! r])" using U(3) by simp
  fix a assume "a < length (heap st')"
  with U(1,2,3) show "heap st' ! a = (heap st @ [heap st' ! r]) ! a"
    by (cases "a < length (heap st)") (auto simp: nth_append less_Suc_eq)
qed

lemma update_stamps:
  assumes "this < length (heap st)" and "distinct (map fst attrs)"
      and "update st this attrs = Inr (st', r)"
      and "stampsBelow st"
  shows "stampsBelow st'"
    and "\<forall>a < length (heap st). \<forall>n. map_of (props (heap st ! a)) (js ''v'') = Some (JNum n) \<longrightarrow> n < nextv st"
    and "map_of (props (heap st' ! r)) (js ''v'') = Some (JNum (nextv st))"
proof -
  note U = update_effect [OF assms(1-3)]
  note A = update_appends [OF assms(1-3)]
  show new: "map_of (props (heap st' ! r)) (js ''v'') = Some (JNum (nextv st))" by (rule U(4))
  from assms(4) have old: "list_all (\<lambda>e. case map_of (props e) (js ''v'') of Some (JNum n) \<Rightarrow> n < nextv st | _ \<Rightarrow> True) (heap st)"
    by (simp add: stampsBelow_def)
  then show "\<forall>a < length (heap st). \<forall>n. map_of (props (heap st ! a)) (js ''v'') = Some (JNum n) \<longrightarrow> n < nextv st"
    by (auto simp: list_all_length)
  from old have "list_all (\<lambda>e. case map_of (props e) (js ''v'') of Some (JNum n) \<Rightarrow> n < nextv st + 1 | _ \<Rightarrow> True) (heap st)"
    by (auto simp: list_all_iff split: option.splits jsval.splits)
  moreover have "case map_of (props (heap st' ! r)) (js ''v'') of Some (JNum n) \<Rightarrow> n < nextv st + 1 | _ \<Rightarrow> True"
    using new by simp
  ultimately have "list_all (\<lambda>e. case map_of (props e) (js ''v'') of Some (JNum n) \<Rightarrow> n < nextv st + 1 | _ \<Rightarrow> True)
      (heap st @ [heap st' ! r])" by simp
  then have "list_all (\<lambda>e. case map_of (props e) (js ''v'') of Some (JNum n) \<Rightarrow> n < nextv st + 1 | _ \<Rightarrow> True)
      (heap st')" by (subst A)
  then show "stampsBelow st'" by (simp only: stampsBelow_def U(5))
qed

text \<open>
  C3 fails at the first update of a session.  \<open>_nextv\<close> starts at 0, the value that
  \<open>osmEntity.key\<close> reads for an entity without a stamp (\<open>entity.v || 0\<close>): the node \<open>a\<close>
  made by \<open>osmEntity({id: 'n1'})\<close> has no \<open>v\<close>, its update \<open>b\<close> gets \<open>v = 0\<close>, and both
  have the key \<open>n1v0\<close>.
\<close>

theorem first_update_reuses_version_zero:
  "firstUpdate = Some (Inr (js ''n1v0''), Inr (js ''n1v0''), JUndefined, JNum 0)"
  by code_simp

section \<open>Properties of the photo service\<close>

lemma fulfilled_marks_loaded:
  "tileId tile \<in> set (loaded (cache (loadTileAsync_settled now tile (Fulfilled items) st)))"
  by (cases items)
     (auto simp: loadTileAsync_settled_def loadTileAsync_then_def loadTileAsync_catch_def
        loadTileAsync_finally_def setAdd_def Let_def)

lemma fulfilled_emits:
  "emitted (loadTileAsync_settled now tile (Fulfilled (Some items)) st) = emitted st @ [js ''loadedData'']"
  by (simp add: loadTileAsync_settled_def loadTileAsync_then_def loadTileAsync_finally_def Let_def)

text \<open>
  C7: an aborted tile request is a no-op on the cache.  When the request rejects with an
  \<open>AbortError\<close>, the settled chain removes the tile's entry from \<open>inflight\<close> and changes
  nothing else: \<open>loaded\<close>, \<open>images\<close> and \<open>rtree\<close> are as before, no event is emitted,
  no redraw is requested and nothing is logged.
\<close>

theorem aborted_fetch_only_clears_inflight:
  assumes "errName err = js ''AbortError''"
  shows "loadTileAsync_settled now tile (Rejected err) st =
           st\<lparr>cache := (cache st)\<lparr>inflight := AList.delete (tileId tile) (inflight (cache st))\<rparr>\<rparr> \<and>
         loaded (cache (loadTileAsync_settled now tile (Rejected err) st)) = loaded (cache st) \<and>
         images (cache (loadTileAsync_settled now tile (Rejected err) st)) = images (cache st) \<and>
         rtree (cache (loadTileAsync_settled now tile (Rejected err) st)) = rtree (cache st) \<and>
         emitted (loadTileAsync_settled now tile (Rejected err) st) = emitted st \<and>
         redraws (loadTileAsync_settled now tile (Rejected err) st) = redraws st \<and>
         consoleErrors (loadTileAsync_settled now tile (Rejected err) st) = consoleErrors st \<and>
         map_of (inflight (cache (loadTileAsync_settled now tile (Rejected err) st))) (tileId tile) = None"
  using assms
  by (simp add: loadTileAsync_settled_def loadTileAsync_catch_def loadTileAsync_finally_def delete_conv')

theorem aborted_fetch_only_clears_inflight_witness:
  "loadTileAsync_settled 5 exampleTile (Rejected \<lparr>errName = js ''AbortError'', isError = True\<rparr>) exampleService =
     exampleService\<lparr>cache := (cache exampleService)\<lparr>inflight := []\<rparr>\<rparr> \<and>
   loaded (cache (loadTileAsync_settled 5 exampleTile (Rejected \<lparr>errName = js ''AbortError'', isError = True\<rparr>)
             exampleService)) = [js ''14,8800,5371''] \<and>
   emitted (loadTileAsync_settled 5 exampleTile (Rejected \<lparr>errName = js ''AbortError'', isError = True\<rparr>)
              exampleService) = []"
proof -
  let ?err = "\<lparr>errName = js ''AbortError'', isError = True\<rparr>"
  have e: "errName ?err = js ''AbortError''" by simp
  have d: "AList.delete (tileId exampleTile) (inflight (cache exampleService)) = []" by code_simp
  have l: "loaded (cache exampleService) = [js ''14,8800,5371'']" "emitted exampleService = []"
    by (simp_all add: exampleService_def)
  from aborted_fetch_only_clears_inflight [OF e, of 5 exampleTile exampleService] d l
  show ?thesis by simp
qed

section \<open>Properties of the extract operation\<close>

lemma extractAction_uninteresting:
  assumes "graph_hasEntity env i = Some e"
      and "hasInterestingTags (osmIsInterestingTag env) e = Inr False"
  shows "extractAction env i ext = Inr (None, ext)"
  using assms by (simp add: extractAction_def)

lemma extractAction_id:
  "extractAction env j ext = Inr (Some x, ext') \<Longrightarrow> x = j"
  by (auto simp: extractAction_def split: option.splits sum.splits if_splits)

lemma buildActions_length:
  "buildActions env ids ext = Inr (as, ext') \<Longrightarrow> length as \<le> length ids"
proof (induction ids arbitrary: ext as ext')
  case Nil
  then show ?case by simp
next
  case (Cons j ids)
  from Cons.prems obtain a ext1 bs where
    r: "buildActions env ids ext1 = Inr (bs, ext')" and
    as: "as = (case a of None \<Rightarrow> bs | Some x \<Rightarrow> x # bs)"
    by (auto split: sum.splits prod.splits)
  from Cons.IH [OF r] as show ?case by (cases a) auto
qed

lemma buildActions_skips:
  assumes "i \<in> set ids"
      and "graph_hasEntity env i = Some e"
      and "hasInterestingTags (osmIsInterestingTag env) e = Inr False"
      and "buildActions env ids ext = Inr (as, ext')"
  shows "length as < length ids \<and> i \<notin> set as"
  using assms(1,4)
proof (induction ids arbitrary: ext as ext')
  case Nil
  then show ?case by simp
next
  case (Cons j ids)
  from Cons.prems(2) obtain a ext1 bs where
    x: "extractAction env j ext = Inr (a, ext1)" and
    r: "buildActions env ids ext1 = Inr (bs, ext')" and
    as: "as = (case a of None \<Rightarrow> bs | Some x \<Rightarrow> x # bs)"
    by (auto split: sum.splits prod.splits)
  show ?case
  proof (cases "j = i")
    case True
    with x extractAction_uninteresting [OF assms(2,3), of ext] have a: "a = None" by simp
    have n: "i \<notin> set bs"
    proof (cases "i \<in> set ids")
      case True
      from Cons.IH [OF True r] show ?thesis by simp
    next
      case False
      have "set cs \<subseteq> set js" if "buildActions env js x0 = Inr (cs, x1)" for js cs x0 x1
        using that
      proof (induction js arbitrary: x0 cs x1)
        case Nil
        then show ?case by simp
      next
        case (Cons k js)
        from Cons.prems obtain a' y1 ds where
          x': "extractAction env k x0 = Inr (a', y1)" and
          r': "buildActions env js y1 = Inr (ds, x1)" and
          cs: "cs = (case a' of None \<Rightarrow> ds | Some x \<Rightarrow> x # ds)"
          by (auto split: sum.splits prod.splits)
        from Cons.IH [OF r'] cs x' show ?case
          by (cases a') (auto dest: extractAction_id)
      qed
      from this [OF r] False show ?thesis by auto
    qed
    from buildActions_length [OF r] a as n show ?thesis by simp
  next
    case False
    with Cons.prems(1) have "i \<in> set ids" by simp
    from Cons.IH [OF this r] as x False show ?thesis
      by (cases a) (auto dest: extractAction_id)
  qed
qed

lemma someHiddenVertex_total:
  "\<forall>j \<in> set ids. \<exists>g. graph_geometry env j = Inr g \<Longrightarrow> \<exists>h. someHiddenVertex env ids = Inr h"
  by (induction ids) auto

text \<open>
  C9, as the code has it: an entity that exists but has no interesting tags gets no
  action, so \<open>available()\<close> is falsy: it is the number 0 when no action at all was
  built and \<open>false\<close> when only some were.  \<open>disabled()\<close>, when it returns, returns
  \<open>'connected_to_hidden'\<close>, \<open>'too_large'\<close> or \<open>false\<close>, and it returns whenever
  \<open>graph.geometry\<close> does for the selected ids.
\<close>

theorem extract_without_interesting_tags:
  assumes "i \<in> set ids"
      and "graph_hasEntity env i = Some e"
      and "hasInterestingTags (osmIsInterestingTag env) e = Inr False"
      and "operationExtract env ids = Inr op"
  shows "i \<notin> set (actions op) \<and> length (actions op) < length ids \<and>
         \<not> truthy (available op) \<and>
         (available op = JNum 0 \<or> available op = JBool False) \<and>
         (\<forall>r. disabled env op = Inr r \<longrightarrow>
            r = JStr (js ''connected_to_hidden'') \<or> r = JStr (js ''too_large'') \<or> r = JBool False) \<and>
         ((\<forall>j \<in> set ids. \<exists>g. graph_geometry env j = Inr g) \<longrightarrow> (\<exists>r. disabled env op = Inr r))"
proof -
  from assms(4) obtain as ext where
    b: "buildActions env ids None = Inr (as, ext)" and
    a: "actions op = as" and s: "selectedIDs op = ids"
    by (auto simp: operationExtract_def split: sum.splits prod.splits)
  from buildActions_skips [OF assms(1-3) b] a
  have len: "length (actions op) < length ids" and notin: "i \<notin> set (actions op)" by simp_all
  have av: "\<not> truthy (available op)" "available op = JNum 0 \<or> available op = JBool False"
    using len s by (auto simp: available_def)
  have dis: "\<forall>r. disabled env op = Inr r \<longrightarrow>
            r = JStr (js ''connected_to_hidden'') \<or> r = JStr (js ''too_large'') \<or> r = JBool False"
    by (auto simp: disabled_def split: sum.splits option.splits if_splits)
  have tot: "(\<forall>j \<in> set ids. \<exists>g. graph_geometry env j = Inr g) \<longrightarrow> (\<exists>r. disabled env op = Inr r)"
  proof
    assume "\<forall>j \<in> set ids. \<exists>g. graph_geometry env j = Inr g"
    from someHiddenVertex_total [OF this] s obtain h
      where "someHiddenVertex env (selectedIDs op) = Inr h" by auto
    then show "\<exists>r. disabled env op = Inr r"
      by (auto simp: disabled_def split: option.splits)
  qed
  from notin len av dis tot show ?thesis by (intro conjI)
qed

text \<open>
  The theorem at an example: the selection is the way \<open>w1\<close>, whose only tag, \<open>source\<close>,
  is not interesting.
\<close>

theorem extract_without_interesting_tags_witness:
  "\<exists>op. operationExtract exampleEnv [js ''w1''] = Inr op \<and> actions op = [] \<and>
     \<not> truthy (available op) \<and> disabled exampleEnv op = Inr (JBool False)"
proof -
  let ?op = "\<lparr>amount = js ''single'', geometryID = js ''line'', actions = [], opExtent = None,
              selectedIDs = [js ''w1'']\<rparr> :: nat operation"
  have o: "operationExtract exampleEnv [js ''w1''] = Inr ?op" by code_simp
  have i: "js ''w1'' \<in> set [js ''w1'']" by simp
  have h: "graph_hasEntity exampleEnv (js ''w1'') = Some exampleWay" by (simp add: exampleEnv_def)
  have t: "hasInterestingTags (osmIsInterestingTag exampleEnv) exampleWay = Inr False" by code_simp
  have d: "disabled exampleEnv ?op = Inr (JBool False)" by code_simp
  from extract_without_interesting_tags [OF i h t o] o d show ?thesis by auto
qed

text \<open>
  The claim C9 as stated fails: with the way \<open>w1\<close> alone selected, \<open>available()\<close> is
  the number 0, which is not \<open>false\<close>.
\<close>

theorem extract_without_interesting_tags_counterexample:
  "(case operationExtract exampleEnv [js ''w1''] of Inl e \<Rightarrow> JUndefined | Inr op \<Rightarrow> available op) = JNum 0 \<and>
   JNum 0 \<noteq> JBool False"
  by code_simp

section \<open>Properties of the validation\<close>

lemma foldl_append_concat:
  "foldl (\<lambda>issues entity. issues @ f entity) acc es = acc @ concat (map f es)"
  by (induction es arbitrary: acc) simp_all

lemma validate_concat:
  "validate validator g = concat (map (\<lambda>entity. validator entity g) (baseEntities g))"
  by (simp add: validate_def foldl_append_concat)


lemma classify_Nil: "classify [] = Untagged"
  by (simp add: classify_def)

lemma validator_no_tags:
  assumes "\<forall>e \<in> set (graphEntities g). entityTags e = []"
  shows "validationAmbiguousCrossingTags entity g = []"
proof (cases entity)
  case (Point i l t)
  show ?thesis
  proof (cases "parentWays g i")
    case Nil
    with Point show ?thesis by (simp add: validationAmbiguousCrossingTags_def)
  next
    case (Cons a as)
    show ?thesis
    proof (cases as)
      case Nil
      with Point Cons show ?thesis by (simp add: validationAmbiguousCrossingTags_def)
    next
      case (Cons b bs)
      with \<open>parentWays g i = a # as\<close> have "a \<in> set (parentWays g i)" "b \<in> set (parentWays g i)"
        by simp_all
      then have "a \<in> set (graphEntities g)" "b \<in> set (graphEntities g)"
        by (simp_all add: parentWays_def)
      with assms have "classify (entityTags a) = Untagged" "classify (entityTags b) = Untagged"
        by (simp_all add: classify_Nil)
      then have "\<not> ambiguous (classify (entityTags a)) (classify (entityTags b)) (classify t)"
        by (simp add: ambiguous_def)
      with Point Cons \<open>parentWays g i = a # as\<close> show ?thesis
        by (cases bs) (simp_all add: validationAmbiguousCrossingTags_def)
    qed
  qed
qed (simp_all add: validationAmbiguousCrossingTags_def)

text \<open>
  C5: where no entity of the graph carries a tag, as for two untagged lines that share
  an untagged node, the validator run over every entity yields no issue.
\<close>

theorem untagged_crossing_no_issue:
  assumes "\<forall>e \<in> set (graphEntities g). entityTags e = []"
  shows "validate validationAmbiguousCrossingTags g = []"
  using validator_no_tags [OF assms] by (simp add: validate_concat)

theorem untagged_crossing_no_issue_witness:
  "validate validationAmbiguousCrossingTags (createWaysWithOneCrossingNode [] [] []) = []"
proof -
  have "\<forall>e \<in> set (graphEntities (createWaysWithOneCrossingNode [] [] [])). entityTags e = []"
    by code_simp
  then show ?thesis by (rule untagged_crossing_no_issue)
qed

text \<open>
  C6: line A tagged \<open>crossing=unmarked\<close>, \<open>highway=footway\<close>, \<open>footway=crossing\<close>, line
  B tagged \<open>highway=residential\<close> and their shared node tagged \<open>crossing:markings=yes\<close>
  give exactly one issue over all entities: of type \<open>ambiguous_crossing_tags\<close>, a
  warning, naming two entities, at the coordinates \<open>(0, 0)\<close> of the shared node.
\<close>

theorem unmarked_line_marked_node_one_issue:
  "validate validationAmbiguousCrossingTags
     (createWaysWithOneCrossingNode unmarkedLineTags residentialTags markedNodeTags) =
   [\<lparr>issueType = js ''ambiguous_crossing_tags'', severity = Warning,
     entityIds = [js ''w-1'', js ''w-2''], loc = (0, 0),
     key = js ''ambiguous_crossing_tags:w-1:w-2''\<rparr>] \<and>
   verifySingleCrossingIssue
     (validate validationAmbiguousCrossingTags
        (createWaysWithOneCrossingNode unmarkedLineTags residentialTags markedNodeTags))"
  by code_simp


lemma crossing_scenario:
  "validate validationAmbiguousCrossingTags (createWaysWithOneCrossingNode w1tags w2tags nodeTags) =
     (if ambiguous (classify w1tags) (classify w2tags) (classify nodeTags)
      then [\<lparr>issueType = js ''ambiguous_crossing_tags'', severity = Warning,
             entityIds = [js ''w-1'', js ''w-2''], loc = (0, 0),
             key = issueKey (js ''ambiguous_crossing_tags'') [js ''w-1'', js ''w-2'']\<rparr>]
      else [])"
  by (simp add: validate_concat createWaysWithOneCrossingNode_def Graph_def
      validationAmbiguousCrossingTags_def parentWays_def graphEntities_def js_eq_iff)







end
